theory Spec2Isabelle
  imports Main
begin

section \<open>Python values and failures\<close>

text \<open>
  The model follows \<^verbatim>\<open>src/btctoy/crypto/__init__.py\<close>. Python integers are \<open>int\<close>,
  byte strings are lists of integers in \<open>0..255\<close>, and every exception the code can
  raise is a value of \<open>error\<close>; a function that can raise returns \<open>error + 'a\<close>.
  \<open>NoneResult\<close> stands for a function body that falls off its end and hands back
  Python's \<open>None\<close> where the caller expects an object.
\<close>

datatype error =
  ValueError | TypeError | AttributeError | IndexError | OverflowError
  | SyntaxError | ZeroDivisionError | NoneResult

type_synonym bytes = "int list"

definition thn :: "error + 'a \<Rightarrow> ('a \<Rightarrow> error + 'b) \<Rightarrow> error + 'b" where
  "thn m f = (case m of Inl e \<Rightarrow> Inl e | Inr v \<Rightarrow> f v)"

text \<open>Python's \<open>a % b\<close> on integers: floor modulus, ZeroDivisionError when \<open>b = 0\<close>.\<close>

definition py_mod :: "int \<Rightarrow> int \<Rightarrow> error + int" where
  "py_mod a b = (if b = 0 then Inl ZeroDivisionError else Inr (a mod b))"

text \<open>
  The builtin \<open>pow(base, exp, mod)\<close>. A zero modulus raises ValueError; a negative
  exponent is rejected with ValueError (the behaviour before Python 3.8; the code only
  reaches it with a modulus below 2).
\<close>

definition py_pow3 :: "int \<Rightarrow> int \<Rightarrow> int \<Rightarrow> error + int" where
  "py_pow3 b e m =
     (if m = 0 then Inl ValueError
      else if e < 0 then Inl ValueError
      else Inr ((b ^ nat e) mod m))"

text \<open>\<open>n.to_bytes(len, "big")\<close> and \<open>int.from_bytes(bs, "big")\<close>.\<close>

definition to_bytes :: "nat \<Rightarrow> int \<Rightarrow> error + bytes" where
  "to_bytes len n =
     (if n < 0 \<or> 256 ^ len \<le> n then Inl OverflowError
      else Inr (map (\<lambda>i. (n div 256 ^ (len - 1 - i)) mod 256) [0..<len]))"

definition from_bytes :: "bytes \<Rightarrow> int" where
  "from_bytes bs = foldl (\<lambda>acc b. acc * 256 + b) 0 bs"

text \<open>\<open>bs.lstrip(b"\x00")\<close>.\<close>

definition lstrip0 :: "bytes \<Rightarrow> bytes" where
  "lstrip0 bs = dropWhile (\<lambda>b. b = 0) bs"

text \<open>\<open>bytes([...])\<close>: every element must be in \<open>range(256)\<close>, else ValueError.\<close>

definition bytes_of :: "int list \<Rightarrow> error + bytes" where
  "bytes_of xs = (if list_all (\<lambda>x. 0 \<le> x \<and> x < 256) xs then Inr xs else Inl ValueError)"

section \<open>Secp256k1 parameters\<close>

definition EC_A :: int where "EC_A = 0"
definition EC_B :: int where "EC_B = 7"
definition EC_PRIME :: int where
  "EC_PRIME = 2^256 - 2^32 - 2^9 - 2^8 - 2^7 - 2^6 - 2^4 - 2^0"
definition G_X :: int where
  "G_X = 0x79BE667EF9DCBBAC55A06295CE870B07029BFCDB2DCE28D959F2815B16F81798"
definition G_Y :: int where
  "G_Y = 0x483ADA7726A3C4655DA4FBFC0E1108A8FD17B448A68554199C47D08FFB10D4B8"
definition G_ORDER :: int where
  "G_ORDER = 0xFFFFFFFFFFFFFFFFFFFFFFFFFFFFFFFEBAAEDCE6AF48A03BBFD25E8CD0364141"

section \<open>ModularFieldInteger and S256Integer\<close>

text \<open>
  Modelled from the spec: \<open>is_prime\<close> of \<^verbatim>\<open>btctoy.crypto.prime\<close>, which is not among the
  sources. The spec describes it as the primality test \<open>is_prime(n) -> bool\<close> that
  validates the modulus at construction. The operations below take the test as a
  parameter \<open>ip\<close>; theorems about arbitrary fields instantiate it with this definition.
\<close>

definition is_prime :: "int \<Rightarrow> bool" where
  "is_prime n = (1 < n \<and> (\<forall>d \<in> {2..<n}. n mod d \<noteq> 0))"

datatype fcls = ModularFieldInteger | S256Integer

record fe =
  fe_value :: int
  fe_prime :: int
  fe_class :: fcls

text \<open>\<open>ModularFieldInteger.__init__\<close>, run on an object of class \<open>c\<close>.\<close>

definition mfi_init :: "(int \<Rightarrow> bool) \<Rightarrow> fcls \<Rightarrow> int \<Rightarrow> int \<Rightarrow> error + fe" where
  "mfi_init ip c v p =
     (if \<not> ip p then Inl ValueError
      else thn (py_mod v p) (\<lambda>r. Inr \<lparr>fe_value = r, fe_prime = p, fe_class = c\<rparr>))"

text \<open>\<open>S256Integer.__init__\<close>.\<close>

definition S256Integer_init :: "(int \<Rightarrow> bool) \<Rightarrow> int \<Rightarrow> int \<Rightarrow> error + fe" where
  "S256Integer_init ip v p =
     (if p \<noteq> EC_PRIME then Inl ValueError else mfi_init ip S256Integer v p)"

text \<open>\<open>self.__class__(value, prime)\<close>: the constructor of the receiver's class.\<close>

definition fe_new :: "(int \<Rightarrow> bool) \<Rightarrow> fcls \<Rightarrow> int \<Rightarrow> int \<Rightarrow> error + fe" where
  "fe_new ip c v p =
     (case c of ModularFieldInteger \<Rightarrow> mfi_init ip ModularFieldInteger v p
      | S256Integer \<Rightarrow> S256Integer_init ip v p)"

definition fe_eq :: "fe \<Rightarrow> fe \<Rightarrow> bool" where
  "fe_eq a b = (fe_value a = fe_value b \<and> fe_prime a = fe_prime b)"

definition fe_ne :: "fe \<Rightarrow> fe \<Rightarrow> bool" where
  "fe_ne a b = (\<not> fe_eq a b)"

definition fe_add :: "(int \<Rightarrow> bool) \<Rightarrow> fe \<Rightarrow> fe \<Rightarrow> error + fe" where
  "fe_add ip a b =
     (if fe_prime a \<noteq> fe_prime b then Inl TypeError
      else thn (py_mod (fe_value a + fe_value b) (fe_prime a))
             (\<lambda>v. fe_new ip (fe_class a) v (fe_prime a)))"

definition fe_sub :: "(int \<Rightarrow> bool) \<Rightarrow> fe \<Rightarrow> fe \<Rightarrow> error + fe" where
  "fe_sub ip a b =
     (if fe_prime a \<noteq> fe_prime b then Inl TypeError
      else thn (py_mod (fe_value a - fe_value b) (fe_prime a))
             (\<lambda>v. fe_new ip (fe_class a) v (fe_prime a)))"

definition fe_mul :: "(int \<Rightarrow> bool) \<Rightarrow> fe \<Rightarrow> fe \<Rightarrow> error + fe" where
  "fe_mul ip a b =
     (if fe_prime a \<noteq> fe_prime b then Inl TypeError
      else thn (py_mod (fe_value a * fe_value b) (fe_prime a))
             (\<lambda>v. fe_new ip (fe_class a) v (fe_prime a)))"

definition fe_pow :: "(int \<Rightarrow> bool) \<Rightarrow> fe \<Rightarrow> int \<Rightarrow> error + fe" where
  "fe_pow ip a exponent =
     thn (py_mod exponent (fe_prime a - 1)) (\<lambda>n.
     thn (py_pow3 (fe_value a) n (fe_prime a)) (\<lambda>v.
     fe_new ip (fe_class a) v (fe_prime a)))"

definition fe_truediv :: "(int \<Rightarrow> bool) \<Rightarrow> fe \<Rightarrow> fe \<Rightarrow> error + fe" where
  "fe_truediv ip a b =
     (if fe_prime a \<noteq> fe_prime b then Inl TypeError
      else thn (py_pow3 (fe_value b) (fe_prime a - 2) (fe_prime a)) (\<lambda>i.
           thn (py_mod (fe_value a * i) (fe_prime a)) (\<lambda>v.
           fe_new ip (fe_class a) v (fe_prime a))))"

text \<open>\<open>coefficient * self\<close> with an integer on the left (\<open>__rmul__\<close>).\<close>

definition fe_rmul :: "(int \<Rightarrow> bool) \<Rightarrow> int \<Rightarrow> fe \<Rightarrow> error + fe" where
  "fe_rmul ip coefficient a =
     thn (py_mod (fe_value a * coefficient) (fe_prime a))
       (\<lambda>v. fe_new ip (fe_class a) v (fe_prime a))"

text \<open>\<open>S256Integer.sqrt\<close>.\<close>

definition fe_sqrt :: "(int \<Rightarrow> bool) \<Rightarrow> fe \<Rightarrow> error + fe" where
  "fe_sqrt ip a = fe_pow ip a ((EC_PRIME + 1) div 4)"

text \<open>The module constants \<open>A = S256Integer(EC_A)\<close> and \<open>B = S256Integer(EC_B)\<close>.\<close>

definition S256_A :: fe where
  "S256_A = \<lparr>fe_value = EC_A, fe_prime = EC_PRIME, fe_class = S256Integer\<rparr>"

definition S256_B :: fe where
  "S256_B = \<lparr>fe_value = EC_B, fe_prime = EC_PRIME, fe_class = S256Integer\<rparr>"

section \<open>EllipcCurvePoint and S256Point\<close>

text \<open>\<open>is_on_elliptic_curve\<close>: \<open>y**2 == x**3 + a * x + b\<close>, operands left to right.\<close>

definition is_on_elliptic_curve ::
  "(int \<Rightarrow> bool) \<Rightarrow> fe \<Rightarrow> fe \<Rightarrow> fe \<Rightarrow> fe \<Rightarrow> error + bool" where
  "is_on_elliptic_curve ip x y a b =
     thn (fe_pow ip y 2) (\<lambda>y2.
     thn (fe_pow ip x 3) (\<lambda>x3.
     thn (fe_mul ip a x) (\<lambda>ax.
     thn (fe_add ip x3 ax) (\<lambda>t.
     thn (fe_add ip t b) (\<lambda>rhs.
     Inr (fe_eq y2 rhs))))))"

datatype pcls = EllipcCurvePoint | S256Point

text \<open>
  A point object. The constructor refuses a point with exactly one coordinate \<open>None\<close>,
  so an object has either both coordinates or none: \<open>pt_xy = None\<close> is the point at
  infinity (\<open>self.x is None\<close>), \<open>pt_xy = Some (x, y)\<close> a finite point.
\<close>

record point =
  pt_xy :: "(fe \<times> fe) option"
  pt_a :: fe
  pt_b :: fe
  pt_class :: pcls

text \<open>\<open>EllipcCurvePoint.__init__\<close>, run on an object of class \<open>c\<close>.\<close>

definition ecp_init ::
  "(int \<Rightarrow> bool) \<Rightarrow> pcls \<Rightarrow> fe option \<Rightarrow> fe option \<Rightarrow> fe \<Rightarrow> fe \<Rightarrow> error + point" where
  "ecp_init ip c x y a b =
     (case (x, y) of
        (None, None) \<Rightarrow> Inr \<lparr>pt_xy = None, pt_a = a, pt_b = b, pt_class = c\<rparr>
      | (None, Some _) \<Rightarrow> Inl ValueError
      | (Some _, None) \<Rightarrow> Inl ValueError
      | (Some xv, Some yv) \<Rightarrow>
          thn (is_on_elliptic_curve ip xv yv a b) (\<lambda>ok.
            if \<not> ok then Inl ValueError
            else Inr \<lparr>pt_xy = Some (xv, yv), pt_a = a, pt_b = b, pt_class = c\<rparr>))"

text \<open>
  \<open>S256Point.__init__\<close>. A coordinate argument is an integer, a field element or
  \<open>None\<close>. Both conversions test \<open>isinstance(x, int)\<close>: with \<open>x\<close> an integer, \<open>y\<close> goes
  through \<open>S256Integer(y)\<close>, which for a field element \<open>y\<close> fails in \<open>value % prime\<close>
  (TypeError); with \<open>x\<close> not an integer, \<open>y\<close> is passed on unchanged, and an integer
  \<open>y\<close> then fails in the comparison of the curve check (AttributeError) after the right
  hand side has been computed.
\<close>

datatype coord = IntCoord int | FeCoord fe

definition S256Point_init ::
  "(int \<Rightarrow> bool) \<Rightarrow> coord option \<Rightarrow> coord option \<Rightarrow> fe \<Rightarrow> fe \<Rightarrow> error + point" where
  "S256Point_init ip x y a b =
     (if fe_ne a S256_A then Inl ValueError
      else if fe_ne b S256_B then Inl ValueError
      else
        thn (case x of None \<Rightarrow> Inr None
             | Some (IntCoord i) \<Rightarrow> thn (S256Integer_init ip i EC_PRIME) (\<lambda>f. Inr (Some f))
             | Some (FeCoord f) \<Rightarrow> Inr (Some f)) (\<lambda>x'.
        case y of
          None \<Rightarrow> ecp_init ip S256Point x' None S256_A S256_B
        | Some (IntCoord j) \<Rightarrow>
            (case x of
               Some (IntCoord _) \<Rightarrow>
                 thn (S256Integer_init ip j EC_PRIME) (\<lambda>f.
                   ecp_init ip S256Point x' (Some f) S256_A S256_B)
             | None \<Rightarrow> Inl ValueError
             | Some (FeCoord xf) \<Rightarrow>
                 thn (fe_pow ip xf 3) (\<lambda>x3.
                 thn (fe_mul ip S256_A xf) (\<lambda>ax.
                 thn (fe_add ip x3 ax) (\<lambda>t.
                 thn (fe_add ip t S256_B) (\<lambda>rhs. Inl AttributeError)))))
        | Some (FeCoord g) \<Rightarrow>
            (case x of
               Some (IntCoord _) \<Rightarrow> (if \<not> ip EC_PRIME then Inl ValueError else Inl TypeError)
             | _ \<Rightarrow> ecp_init ip S256Point x' (Some g) S256_A S256_B)))"

text \<open>\<open>self.__class__(x, y, a, b)\<close> with field elements or \<open>None\<close> as coordinates.\<close>

definition pt_new ::
  "(int \<Rightarrow> bool) \<Rightarrow> pcls \<Rightarrow> fe option \<Rightarrow> fe option \<Rightarrow> fe \<Rightarrow> fe \<Rightarrow> error + point" where
  "pt_new ip c x y a b =
     (case c of
        EllipcCurvePoint \<Rightarrow> ecp_init ip EllipcCurvePoint x y a b
      | S256Point \<Rightarrow> S256Point_init ip (map_option FeCoord x) (map_option FeCoord y) a b)"

text \<open>
  \<open>EllipcCurvePoint.__eq__\<close>. Comparing \<open>None\<close> with \<open>None\<close> is true, comparing \<open>None\<close>
  with a field element is false (\<open>ModularFieldInteger.__eq__\<close> answers False for None).
\<close>

definition pt_eq :: "point \<Rightarrow> point \<Rightarrow> bool" where
  "pt_eq p q =
     ((case (pt_xy p, pt_xy q) of
         (None, None) \<Rightarrow> True
       | (Some (x1, y1), Some (x2, y2)) \<Rightarrow> fe_eq x1 x2 \<and> fe_eq y1 y2
       | _ \<Rightarrow> False)
      \<and> fe_eq (pt_a p) (pt_a q) \<and> fe_eq (pt_b p) (pt_b q))"

text \<open>
  \<open>EllipcCurvePoint.__add__\<close>, the cases in the order of the source. The bodies of
  case 2 (chord through two points with different \<open>x\<close>) and case 3 (tangent at a
  doubled point) are \<open>add_chord\<close> and \<open>add_tangent\<close>.
\<close>

definition add_chord ::
  "(int \<Rightarrow> bool) \<Rightarrow> point \<Rightarrow> fe \<Rightarrow> fe \<Rightarrow> fe \<Rightarrow> fe \<Rightarrow> error + point" where
  "add_chord ip self x1 y1 x2 y2 =
     thn (fe_sub ip y2 y1) (\<lambda>dy.
     thn (fe_sub ip x2 x1) (\<lambda>dx.
     thn (fe_truediv ip dy dx) (\<lambda>s.
     thn (fe_pow ip s 2) (\<lambda>s2.
     thn (fe_sub ip s2 x1) (\<lambda>t.
     thn (fe_sub ip t x2) (\<lambda>x.
     thn (fe_sub ip x1 x) (\<lambda>d.
     thn (fe_mul ip s d) (\<lambda>m.
     thn (fe_sub ip m y1) (\<lambda>y.
     pt_new ip (pt_class self) (Some x) (Some y) (pt_a self) (pt_b self))))))))))"

definition add_tangent ::
  "(int \<Rightarrow> bool) \<Rightarrow> point \<Rightarrow> fe \<Rightarrow> fe \<Rightarrow> error + point" where
  "add_tangent ip self x1 y1 =
     thn (fe_pow ip x1 2) (\<lambda>xx.
     thn (fe_rmul ip 3 xx) (\<lambda>xx3.
     thn (fe_add ip xx3 (pt_a self)) (\<lambda>num.
     thn (fe_rmul ip 2 y1) (\<lambda>den.
     thn (fe_truediv ip num den) (\<lambda>s.
     thn (fe_pow ip s 2) (\<lambda>s2.
     thn (fe_rmul ip 2 x1) (\<lambda>x12.
     thn (fe_sub ip s2 x12) (\<lambda>x.
     thn (fe_sub ip x1 x) (\<lambda>d.
     thn (fe_mul ip s d) (\<lambda>m.
     thn (fe_sub ip m y1) (\<lambda>y.
     pt_new ip (pt_class self) (Some x) (Some y) (pt_a self) (pt_b self))))))))))))"

definition ecp_add :: "(int \<Rightarrow> bool) \<Rightarrow> point \<Rightarrow> point \<Rightarrow> error + point" where
  "ecp_add ip self other =
     (if fe_ne (pt_a self) (pt_a other) \<or> fe_ne (pt_b self) (pt_b other) then Inl TypeError
      else case pt_xy self of
        None \<Rightarrow> Inr other
      | Some (x1, y1) \<Rightarrow>
        (case pt_xy other of
           None \<Rightarrow> Inr self
         | Some (x2, y2) \<Rightarrow>
             if fe_eq x1 x2 \<and> fe_ne y1 y2 then
               pt_new ip (pt_class self) None None (pt_a self) (pt_b self)
             else if fe_ne x1 x2 then add_chord ip self x1 y1 x2 y2
             else if \<not> pt_eq self other then Inl NoneResult
             else
               thn (fe_rmul ip 0 x1) (\<lambda>zero.
                 if fe_eq y1 zero then
                   pt_new ip (pt_class self) None None (pt_a self) (pt_b self)
                 else add_tangent ip self x1 y1)))"

text \<open>
  The loop of \<open>EllipcCurvePoint.__rmul__\<close>. \<open>while coef:\<close> runs until \<open>coef\<close> is zero; with
  a negative \<open>coef\<close> the shift never reaches zero, so the loop is a partial function
  and \<open>None\<close> means that it does not return.
\<close>

partial_function (option) rmul_loop ::
  "(int \<Rightarrow> bool) \<Rightarrow> int \<Rightarrow> point \<Rightarrow> point \<Rightarrow> (error + point) option" where
  "rmul_loop ip coef current result =
     (if coef = 0 then Some (Inr result)
      else case (if and coef 1 \<noteq> 0 then ecp_add ip result current else Inr result) of
        Inl e \<Rightarrow> Some (Inl e)
      | Inr result' \<Rightarrow>
          (case ecp_add ip current current of
             Inl e \<Rightarrow> Some (Inl e)
           | Inr current' \<Rightarrow> rmul_loop ip (drop_bit 1 coef) current' result'))"

definition ecp_rmul :: "(int \<Rightarrow> bool) \<Rightarrow> int \<Rightarrow> point \<Rightarrow> (error + point) option" where
  "ecp_rmul ip coefficient self =
     (case pt_new ip (pt_class self) None None (pt_a self) (pt_b self) of
        Inl e \<Rightarrow> Some (Inl e)
      | Inr result \<Rightarrow> rmul_loop ip coefficient self result)"

text \<open>\<open>S256Point.__rmul__\<close>: the scalar is reduced modulo the group order first.\<close>

definition S256Point_rmul :: "(int \<Rightarrow> bool) \<Rightarrow> int \<Rightarrow> point \<Rightarrow> (error + point) option" where
  "S256Point_rmul ip coefficient self =
     (case py_mod coefficient G_ORDER of
        Inl e \<Rightarrow> Some (Inl e)
      | Inr coef \<Rightarrow> ecp_rmul ip coef self)"

text \<open>\<open>coefficient * point\<close>: the \<open>__rmul__\<close> of the point's class.\<close>

definition pt_rmul :: "(int \<Rightarrow> bool) \<Rightarrow> int \<Rightarrow> point \<Rightarrow> (error + point) option" where
  "pt_rmul ip coefficient self =
     (case pt_class self of
        EllipcCurvePoint \<Rightarrow> ecp_rmul ip coefficient self
      | S256Point \<Rightarrow> S256Point_rmul ip coefficient self)"

text \<open>The module constant \<open>G = S256Point(G_X, G_Y)\<close>.\<close>

definition S256_G :: point where
  "S256_G =
     \<lparr>pt_xy = Some (\<lparr>fe_value = G_X, fe_prime = EC_PRIME, fe_class = S256Integer\<rparr>,
                    \<lparr>fe_value = G_Y, fe_prime = EC_PRIME, fe_class = S256Integer\<rparr>),
      pt_a = S256_A, pt_b = S256_B, pt_class = S256Point\<rparr>"

section \<open>Signature and its DER codec\<close>

record signature =
  sig_r :: int
  sig_s :: int

text \<open>
  One INTEGER field of \<open>Signature.der\<close>: the source runs the same statements once for
  \<open>r\<close> and once for \<open>s\<close>. \<open>rbin[0]\<close> on the empty byte string raises IndexError.
\<close>

definition der_integer :: "int \<Rightarrow> error + bytes" where
  "der_integer v =
     thn (to_bytes 32 v) (\<lambda>bin0.
       case lstrip0 bin0 of
         [] \<Rightarrow> Inl IndexError
       | b0 # rest \<Rightarrow>
           (let bin = (if and b0 0x80 \<noteq> 0 then 0 # b0 # rest else b0 # rest)
            in thn (bytes_of [2, int (length bin)]) (\<lambda>hdr. Inr (hdr @ bin))))"

definition der :: "signature \<Rightarrow> error + bytes" where
  "der sg =
     thn (der_integer (sig_r sg)) (\<lambda>rfield.
     thn (der_integer (sig_s sg)) (\<lambda>sfield.
     thn (bytes_of [0x30, int (length (rfield @ sfield))]) (\<lambda>hdr.
     Inr (hdr @ rfield @ sfield))))"

text \<open>
  \<open>Signature.parse\<close>. The \<open>BytesIO\<close> stream is the list of bytes not yet read;
  \<open>s.read(1)[0]\<close> at the end of the stream raises IndexError, \<open>s.read(n)\<close> hands back
  at most \<open>n\<close> bytes.
\<close>

definition read1 :: "bytes \<Rightarrow> error + (int \<times> bytes)" where
  "read1 bs = (case bs of [] \<Rightarrow> Inl IndexError | b # rest \<Rightarrow> Inr (b, rest))"

definition Signature_parse :: "bytes \<Rightarrow> error + signature" where
  "Signature_parse signature_bin =
     thn (read1 signature_bin) (\<lambda>(compound, s1).
     if compound \<noteq> 0x30 then Inl SyntaxError else
     thn (read1 s1) (\<lambda>(len, s2).
     if len + 2 \<noteq> int (length signature_bin) then Inl SyntaxError else
     thn (read1 s2) (\<lambda>(marker, s3).
     if marker \<noteq> 0x02 then Inl SyntaxError else
     thn (read1 s3) (\<lambda>(rlength, s4).
     let r = from_bytes (take (nat rlength) s4); s5 = drop (nat rlength) s4 in
     thn (read1 s5) (\<lambda>(marker2, s6).
     if marker2 \<noteq> 0x02 then Inl SyntaxError else
     thn (read1 s6) (\<lambda>(slength, s7).
     let s = from_bytes (take (nat slength) s7) in
     if int (length signature_bin) \<noteq> 6 + rlength + slength then Inl SyntaxError
     else Inr \<lparr>sig_r = r, sig_s = s\<rparr>))))))"

section \<open>SEC codec of S256Point\<close>

text \<open>\<open>S256Point.sec\<close>. At the point at infinity \<open>self.y.value\<close> raises AttributeError.\<close>

definition sec :: "point \<Rightarrow> bool \<Rightarrow> error + bytes" where
  "sec self compressed =
     (case pt_xy self of
        None \<Rightarrow> Inl AttributeError
      | Some (x, y) \<Rightarrow>
          if compressed then
            (if fe_value y mod 2 = 0
             then thn (to_bytes 32 (fe_value x)) (\<lambda>xb. Inr (0x02 # xb))
             else thn (to_bytes 32 (fe_value x)) (\<lambda>xb. Inr (0x03 # xb)))
          else
            thn (to_bytes 32 (fe_value x)) (\<lambda>xb.
            thn (to_bytes 32 (fe_value y)) (\<lambda>yb. Inr (0x04 # xb @ yb))))"

text \<open>
  \<open>S256Point.parse\<close>: the body is \<open>pass\<close>, so the call returns Python's \<open>None\<close> for
  every argument; \<open>None\<close> is the \<open>None\<close> of \<open>point option\<close>.
\<close>

definition S256Point_parse :: "bytes \<Rightarrow> point option" where
  "S256Point_parse sec_bin = None"

section \<open>ECDSA\<close>

text \<open>Sequencing of computations that may raise or not return.\<close>

definition thno ::
  "(error + 'a) option \<Rightarrow> ('a \<Rightarrow> (error + 'b) option) \<Rightarrow> (error + 'b) option" where
  "thno m f = (case m of None \<Rightarrow> None | Some (Inl e) \<Rightarrow> Some (Inl e) | Some (Inr v) \<Rightarrow> f v)"

text \<open>\<open>S256Point.verify\<close>. \<open>total.x.value\<close> raises AttributeError when \<open>total\<close> is infinity.\<close>

definition verify :: "(int \<Rightarrow> bool) \<Rightarrow> point \<Rightarrow> int \<Rightarrow> signature \<Rightarrow> (error + bool) option" where
  "verify ip self z sg =
     thno (Some (py_pow3 (sig_s sg) (G_ORDER - 2) G_ORDER)) (\<lambda>s_inv.
     thno (Some (py_mod (z * s_inv) G_ORDER)) (\<lambda>u.
     thno (Some (py_mod (sig_r sg * s_inv) G_ORDER)) (\<lambda>v.
     thno (pt_rmul ip u S256_G) (\<lambda>uG.
     thno (pt_rmul ip v self) (\<lambda>vP.
     thno (Some (ecp_add ip uG vP)) (\<lambda>total.
       case pt_xy total of
         None \<Rightarrow> Some (Inl AttributeError)
       | Some (x, y) \<Rightarrow> Some (Inr (fe_value x = sig_r sg))))))))"












section \<open>Predicates and abbreviations used by the theorems\<close>

text \<open>The point at infinity of class \<open>S256Point\<close>.\<close>

definition S256_infinity :: point where
  "S256_infinity = \<lparr>pt_xy = None, pt_a = S256_A, pt_b = S256_B, pt_class = S256Point\<rparr>"

text \<open>The invariant of a field element, as the spec's data model states it.\<close>

definition fe_invariant :: "fe \<Rightarrow> bool" where
  "fe_invariant a = (0 \<le> fe_value a \<and> fe_value a < fe_prime a)"

text \<open>
  The objects a constructor call can return under the primality test \<open>ip\<close>: the modulus
  passed the test, the value is reduced, and an \<open>S256Integer\<close> has the secp256k1 prime.
\<close>

definition fe_valid :: "(int \<Rightarrow> bool) \<Rightarrow> fe \<Rightarrow> bool" where
  "fe_valid ip a = (ip (fe_prime a) \<and> 0 \<le> fe_value a \<and> fe_value a < fe_prime a
      \<and> (fe_class a = S256Integer \<longrightarrow> fe_prime a = EC_PRIME))"

text \<open>The big-endian digits \<open>to_bytes\<close> produces when the value is in range.\<close>

definition be_bytes :: "nat \<Rightarrow> int \<Rightarrow> bytes" where
  "be_bytes len n = map (\<lambda>i. (n div 256 ^ (len - 1 - i)) mod 256) [0..<len]"

text \<open>
  The point objects the constructors can return on valid field elements over one prime:
  the coefficients and coordinates are valid elements of the same field, a finite point
  passed the curve check, and an \<open>S256Point\<close> carries the module constants \<open>A\<close>, \<open>B\<close>.
\<close>

definition pt_valid :: "(int \<Rightarrow> bool) \<Rightarrow> point \<Rightarrow> bool" where
  "pt_valid ip P =
     (fe_valid ip (pt_a P) \<and> fe_valid ip (pt_b P) \<and> fe_prime (pt_b P) = fe_prime (pt_a P)
      \<and> (pt_class P = S256Point \<longrightarrow> pt_a P = S256_A \<and> pt_b P = S256_B)
      \<and> (case pt_xy P of
            None \<Rightarrow> True
          | Some (x, y) \<Rightarrow>
              fe_valid ip x \<and> fe_valid ip y
              \<and> fe_prime x = fe_prime (pt_a P) \<and> fe_prime y = fe_prime (pt_a P)
              \<and> is_on_elliptic_curve ip x y (pt_a P) (pt_b P) = Inr True))"

text \<open>The point at infinity on the curve and of the class of \<open>P\<close>.\<close>

definition pt_infinity :: "point \<Rightarrow> point" where
  "pt_infinity P = \<lparr>pt_xy = None, pt_a = pt_a P, pt_b = pt_b P, pt_class = pt_class P\<rparr>"

text \<open>
  The addition formulas in the spec's words, over the integers modulo \<open>p\<close>: from a slope
  \<open>s\<close>, \<open>x' = s\<^sup>2 - P.x - Q.x\<close> and \<open>y' = s (P.x - x') - P.y\<close>; the chord slope is
  \<open>(Q.y - P.y) / (Q.x - P.x)\<close>, the tangent slope \<open>(3 P.x\<^sup>2 + a) / (2 P.y)\<close>, and
  division is multiplication by the \<open>(p - 2)\<close>-th power.
\<close>

definition spec_third :: "point \<Rightarrow> fcls \<Rightarrow> int \<Rightarrow> int \<Rightarrow> int \<Rightarrow> int \<Rightarrow> int \<Rightarrow> point" where
  "spec_third P c p s x1 y1 x2 =
     (let x3 = (s ^ 2 - x1 - x2) mod p;
          y3 = (s * (x1 - x3) - y1) mod p
      in \<lparr>pt_xy = Some (\<lparr>fe_value = x3, fe_prime = p, fe_class = c\<rparr>,
                          \<lparr>fe_value = y3, fe_prime = p, fe_class = c\<rparr>),
           pt_a = pt_a P, pt_b = pt_b P, pt_class = pt_class P\<rparr>)"

definition spec_chord :: "point \<Rightarrow> fe \<Rightarrow> fe \<Rightarrow> fe \<Rightarrow> fe \<Rightarrow> point" where
  "spec_chord P x1 y1 x2 y2 =
     (let p = fe_prime x1;
          s = ((fe_value y2 - fe_value y1) * (fe_value x2 - fe_value x1) ^ nat (p - 2)) mod p
      in spec_third P (fe_class y2) p s (fe_value x1) (fe_value y1) (fe_value x2))"

definition spec_tangent :: "point \<Rightarrow> fe \<Rightarrow> fe \<Rightarrow> point" where
  "spec_tangent P x1 y1 =
     (let p = fe_prime x1;
          s = ((3 * fe_value x1 ^ 2 + fe_value (pt_a P)) * (2 * fe_value y1) ^ nat (p - 2)) mod p
      in spec_third P (fe_class x1) p s (fe_value x1) (fe_value y1) (fe_value x1))"

text \<open>The element of class \<open>c\<close> over \<open>p\<close> with the residue of \<open>v\<close> as value.\<close>

definition mk :: "fcls \<Rightarrow> int \<Rightarrow> int \<Rightarrow> fe" where
  "mk c p v = \<lparr>fe_value = v mod p, fe_prime = p, fe_class = c\<rparr>"

text \<open>The class of an element admits the modulus \<open>p\<close>.\<close>

definition cls_ok :: "fcls \<Rightarrow> int \<Rightarrow> bool" where
  "cls_ok c p = (c = S256Integer \<longrightarrow> p = EC_PRIME)"

text \<open>
  Objects on small fields, used as concrete inputs: \<open>MFI p v\<close> is
  \<open>ModularFieldInteger(v, p)\<close> for \<open>0 \<le> v < p\<close>, and \<open>ECP p a b x y\<close> is the point
  \<open>EllipcCurvePoint(x, y, a, b)\<close> over that field.
\<close>

definition MFI :: "int \<Rightarrow> int \<Rightarrow> fe" where
  "MFI p v = \<lparr>fe_value = v, fe_prime = p, fe_class = ModularFieldInteger\<rparr>"

definition ECP :: "int \<Rightarrow> int \<Rightarrow> int \<Rightarrow> int \<Rightarrow> int \<Rightarrow> point" where
  "ECP p a b x y =
     \<lparr>pt_xy = Some (MFI p x, MFI p y), pt_a = MFI p a, pt_b = MFI p b,
      pt_class = EllipcCurvePoint\<rparr>"






text \<open>\<open>S256Integer(v)\<close> for \<open>0 \<le> v < p\<close>.\<close>

definition s256 :: "int \<Rightarrow> fe" where
  "s256 v = \<lparr>fe_value = v, fe_prime = EC_PRIME, fe_class = S256Integer\<rparr>"



section \<open>Basic facts\<close>

lemma thn_Inr [simp]: "thn (Inr v) f = f v"
  by (simp add: thn_def)

lemma thn_Inl [simp]: "thn (Inl e) f = Inl e"
  by (simp add: thn_def)

lemma thn_Inr_iff: "thn m f = Inr r \<longleftrightarrow> (\<exists>v. m = Inr v \<and> f v = Inr r)"
  by (cases m) simp_all

lemma thno_simps [simp]:
  "thno None f = None"
  "thno (Some (Inl e)) f = Some (Inl e)"
  "thno (Some (Inr v)) f = f v"
  by (simp_all add: thno_def)

lemma G_ORDER_pos: "0 < G_ORDER"
  by (simp add: G_ORDER_def)

lemma py_mod_G_ORDER [simp]: "py_mod a G_ORDER = Inr (a mod G_ORDER)"
  using G_ORDER_pos by (simp add: py_mod_def)

lemma fe_ne_refl [simp]: "\<not> fe_ne a a"
  by (simp add: fe_ne_def fe_eq_def)

lemma is_prime_gt1: "is_prime p \<Longrightarrow> 1 < p"
  by (simp add: is_prime_def)

lemma is_prime_7: "is_prime 7"
  by code_simp

lemma fe_new_ok:
  "ip p \<Longrightarrow> p \<noteq> 0 \<Longrightarrow> (c = S256Integer \<longrightarrow> p = EC_PRIME) \<Longrightarrow>
   fe_new ip c v p = Inr \<lparr>fe_value = v mod p, fe_prime = p, fe_class = c\<rparr>"
  by (cases c) (simp_all add: fe_new_def mfi_init_def S256Integer_init_def py_mod_def)

lemma fe_new_Inr:
  "fe_new ip c v p = Inr a \<Longrightarrow>
   ip p \<and> p \<noteq> 0 \<and> a = \<lparr>fe_value = v mod p, fe_prime = p, fe_class = c\<rparr>"
  by (cases c)
     (auto simp add: fe_new_def mfi_init_def S256Integer_init_def py_mod_def split: if_splits)

section \<open>Scalar multiplication on S256Point\<close>

lemma S256Point_init_infinity:
  "fe_eq a S256_A \<Longrightarrow> fe_eq b S256_B \<Longrightarrow> S256Point_init ip None None a b = Inr S256_infinity"
  by (simp add: S256Point_init_def ecp_init_def S256_infinity_def fe_ne_def)

lemma rmul_loop_0: "rmul_loop ip 0 cur res = Some (Inr res)"
  by (subst rmul_loop.simps) simp

lemma ecp_rmul_0_S256:
  assumes "pt_class P = S256Point" "fe_eq (pt_a P) S256_A" "fe_eq (pt_b P) S256_B"
  shows "ecp_rmul ip 0 P = Some (Inr S256_infinity)"
  using assms by (simp add: ecp_rmul_def pt_new_def S256Point_init_infinity rmul_loop_0)




section \<open>Verification of a signature with a zero component\<close>

lemma py_pow3_zero_base: "py_pow3 0 (G_ORDER - 2) G_ORDER = Inr 0"
  by (simp add: py_pow3_def G_ORDER_def)

lemma pt_rmul_0_cases:
  "pt_rmul ip 0 P = Some (Inl ValueError)
   \<or> pt_rmul ip 0 P
       = Some (Inr \<lparr>pt_xy = None, pt_a = pt_a P, pt_b = pt_b P, pt_class = EllipcCurvePoint\<rparr>)
   \<or> pt_rmul ip 0 P = Some (Inr S256_infinity)"
  by (cases "pt_class P")
     (auto simp add: pt_rmul_def ecp_rmul_def S256Point_rmul_def pt_new_def ecp_init_def
        S256Point_init_def S256_infinity_def rmul_loop_0)

lemma pt_rmul_0_G: "pt_rmul ip 0 S256_G = Some (Inr S256_infinity)"
  by (simp add: pt_rmul_def S256Point_rmul_def ecp_rmul_0_S256 S256_G_def fe_eq_def)

text \<open>
  Claim C5. \<open>verify\<close> checks no range. With \<open>s = 0\<close> the inverse \<open>pow(0, n - 2, n)\<close> is
  \<open>0\<close>, both scalars \<open>u\<close> and \<open>v\<close> are \<open>0\<close>, the sum \<open>u * G + v * P\<close> is the point at
  infinity and reading \<open>total.x.value\<close> raises. So for every public point, every hash
  \<open>z\<close> and every \<open>r\<close> the call raises instead of returning a boolean; for a point of
  class \<open>S256Point\<close> on the curve coefficients \<open>A\<close>, \<open>B\<close> the exception is the
  AttributeError of the last line.
\<close>

theorem C5_verify_zero_s_raises:
  "(\<exists>e. verify ip P z \<lparr>sig_r = r, sig_s = 0\<rparr> = Some (Inl e))
   \<and> (pt_class P = S256Point \<and> fe_eq (pt_a P) S256_A \<and> fe_eq (pt_b P) S256_B
        \<longrightarrow> verify ip P z \<lparr>sig_r = r, sig_s = 0\<rparr> = Some (Inl AttributeError))
   \<and> py_pow3 0 (G_ORDER - 2) G_ORDER = Inr 0"
proof -
  have v: "verify ip P z \<lparr>sig_r = r, sig_s = 0\<rparr> =
      thno (pt_rmul ip 0 P) (\<lambda>vP. thno (Some (ecp_add ip S256_infinity vP)) (\<lambda>total.
         case pt_xy total of None \<Rightarrow> Some (Inl AttributeError)
         | Some (x, y) \<Rightarrow> Some (Inr (fe_value x = sig_r \<lparr>sig_r = r, sig_s = 0\<rparr>))))"
    by (simp add: verify_def py_pow3_zero_base pt_rmul_0_G)
  have a: "\<exists>e. verify ip P z \<lparr>sig_r = r, sig_s = 0\<rparr> = Some (Inl e)"
    using pt_rmul_0_cases[of ip P]
    by (auto simp add: v ecp_add_def S256_infinity_def)
  have b: "verify ip P z \<lparr>sig_r = r, sig_s = 0\<rparr> = Some (Inl AttributeError)"
    if "pt_class P = S256Point" "fe_eq (pt_a P) S256_A" "fe_eq (pt_b P) S256_B"
    using that
    by (simp add: v pt_rmul_def S256Point_rmul_def ecp_rmul_0_S256 ecp_add_def S256_infinity_def)
  from a b py_pow3_zero_base show ?thesis by blast
qed

theorem C5_verify_zero_s_raises_witness:
  "verify (\<lambda>p. p = EC_PRIME) S256_G 1 \<lparr>sig_r = 1, sig_s = 0\<rparr> = Some (Inl AttributeError)"
  using C5_verify_zero_s_raises[of "\<lambda>p. p = EC_PRIME" S256_G 1 1]
  by (simp add: S256_G_def fe_eq_def)

section \<open>Field elements: construction, invariant, exponentiation\<close>

lemma fe_new_invariant: "fe_new is_prime c v p = Inr r \<Longrightarrow> fe_invariant r"
  by (auto dest!: fe_new_Inr is_prime_gt1 simp add: fe_invariant_def)

lemma fe_ops_invariant:
  "fe_add is_prime a b = Inr r \<Longrightarrow> fe_invariant r"
  "fe_sub is_prime a b = Inr r \<Longrightarrow> fe_invariant r"
  "fe_mul is_prime a b = Inr r \<Longrightarrow> fe_invariant r"
  "fe_truediv is_prime a b = Inr r \<Longrightarrow> fe_invariant r"
  "fe_pow is_prime a e = Inr r \<Longrightarrow> fe_invariant r"
  "fe_rmul is_prime k a = Inr r \<Longrightarrow> fe_invariant r"
  by (auto simp add: fe_add_def fe_sub_def fe_mul_def fe_truediv_def fe_pow_def fe_rmul_def
      thn_Inr_iff split: if_splits dest: fe_new_invariant)

lemma fe_ops_total:
  assumes "fe_valid is_prime a" "fe_valid is_prime b" "fe_prime a = fe_prime b"
  shows "\<exists>r. fe_add is_prime a b = Inr r" "\<exists>r. fe_sub is_prime a b = Inr r"
    "\<exists>r. fe_mul is_prime a b = Inr r" "\<exists>r. fe_truediv is_prime a b = Inr r"
    "\<exists>r. fe_pow is_prime a e = Inr r" "\<exists>r. fe_rmul is_prime k a = Inr r"
proof -
  have p: "1 < fe_prime a" "is_prime (fe_prime a)"
    using assms(1) by (auto simp add: fe_valid_def dest: is_prime_gt1)
  have c: "fe_class a = S256Integer \<longrightarrow> fe_prime a = EC_PRIME"
    using assms(1) by (simp add: fe_valid_def)
  have nn: "\<not> e mod (fe_prime a - 1) < 0" using p by (simp add: not_less)
  show "\<exists>r. fe_add is_prime a b = Inr r" "\<exists>r. fe_sub is_prime a b = Inr r"
    "\<exists>r. fe_mul is_prime a b = Inr r" "\<exists>r. fe_truediv is_prime a b = Inr r"
    "\<exists>r. fe_pow is_prime a e = Inr r" "\<exists>r. fe_rmul is_prime k a = Inr r"
    using p c nn assms(3)
    by (simp_all add: fe_add_def fe_sub_def fe_mul_def fe_truediv_def fe_pow_def fe_rmul_def
        py_mod_def py_pow3_def fe_new_ok)
qed

text \<open>
  Claim C8. \<open>ModularFieldInteger.__pow__\<close> reduces the exponent modulo \<open>p - 1\<close> and then
  takes the modular power: for a field element \<open>a\<close> over a prime \<open>p\<close> and every integer
  exponent \<open>e\<close>, \<open>a ** e\<close> is the element with value \<open>a.value ^ (e mod (p - 1)) mod p\<close>,
  so \<open>a ** e\<close> and \<open>a ** (e mod (p - 1))\<close> agree. Consequently, for nonzero \<open>a\<close>,
  \<open>a ** (p - 1)\<close> is the element with value \<open>1\<close>.
\<close>

theorem C8_pow_reduces_exponent:
  assumes "is_prime p" "fe_valid is_prime a" "fe_prime a = p" "fe_value a \<noteq> 0"
  shows "fe_pow is_prime a e =
           Inr \<lparr>fe_value = fe_value a ^ nat (e mod (p - 1)) mod p, fe_prime = p,
                fe_class = fe_class a\<rparr>
         \<and> fe_pow is_prime a e = fe_pow is_prime a (e mod (p - 1))
         \<and> fe_pow is_prime a (p - 1) = Inr \<lparr>fe_value = 1, fe_prime = p, fe_class = fe_class a\<rparr>"
proof -
  have p: "1 < p" using assms(1) by (rule is_prime_gt1)
  have c: "fe_class a = S256Integer \<longrightarrow> p = EC_PRIME" using assms by (simp add: fe_valid_def)
  have nn: "\<not> e mod (p - 1) < 0" for e using p by (simp add: not_less)
  have a: "fe_pow is_prime a e =
     Inr \<lparr>fe_value = fe_value a ^ nat (e mod (p - 1)) mod p, fe_prime = p,
          fe_class = fe_class a\<rparr>" for e
    using p assms(1,3) c nn[of e]
    by (simp add: fe_pow_def py_mod_def py_pow3_def fe_new_ok)
  show ?thesis using p by (simp add: a)
qed

theorem C8_pow_reduces_exponent_witness:
  "fe_pow is_prime \<lparr>fe_value = 3, fe_prime = 7, fe_class = ModularFieldInteger\<rparr> 20
     = Inr \<lparr>fe_value = 2, fe_prime = 7, fe_class = ModularFieldInteger\<rparr>
   \<and> fe_pow is_prime \<lparr>fe_value = 3, fe_prime = 7, fe_class = ModularFieldInteger\<rparr> (7 - 1)
     = Inr \<lparr>fe_value = 1, fe_prime = 7, fe_class = ModularFieldInteger\<rparr>"
proof -
  have v: "fe_valid is_prime \<lparr>fe_value = 3, fe_prime = 7, fe_class = ModularFieldInteger\<rparr>"
    by (simp add: fe_valid_def is_prime_7)
  show ?thesis
    using C8_pow_reduces_exponent[OF is_prime_7 v, of 20] by simp
qed

text \<open>
  Claim C9. The constructor takes every integer value: with a prime modulus \<open>p\<close> it
  returns, for every \<open>v\<close> (negative, or at or above \<open>p\<close>), the element with value
  \<open>v mod p\<close>, which satisfies \<open>0 \<le> value < prime\<close>; every object the constructor
  returns satisfies the invariant; and on valid operands over the same prime each
  arithmetic operation (\<open>+\<close>, \<open>-\<close>, \<open>*\<close>, \<open>/\<close>, \<open>**\<close>, integer \<open>*\<close>) returns an element
  that satisfies the invariant.
\<close>

theorem C9_constructor_reduces_and_invariant:
  "(is_prime p \<longrightarrow>
      mfi_init is_prime c v p = Inr \<lparr>fe_value = v mod p, fe_prime = p, fe_class = c\<rparr>
      \<and> fe_invariant \<lparr>fe_value = v mod p, fe_prime = p, fe_class = c\<rparr>)
   \<and> (mfi_init is_prime c v p = Inr r \<longrightarrow> fe_invariant r)
   \<and> (fe_valid is_prime a \<and> fe_valid is_prime b \<and> fe_prime a = fe_prime b \<longrightarrow>
        (\<exists>r. fe_add is_prime a b = Inr r \<and> fe_invariant r)
      \<and> (\<exists>r. fe_sub is_prime a b = Inr r \<and> fe_invariant r)
      \<and> (\<exists>r. fe_mul is_prime a b = Inr r \<and> fe_invariant r)
      \<and> (\<exists>r. fe_truediv is_prime a b = Inr r \<and> fe_invariant r)
      \<and> (\<exists>r. fe_pow is_prime a e = Inr r \<and> fe_invariant r)
      \<and> (\<exists>r. fe_rmul is_prime k a = Inr r \<and> fe_invariant r))"
proof -
  have one: "mfi_init is_prime c v p = Inr \<lparr>fe_value = v mod p, fe_prime = p, fe_class = c\<rparr>
      \<and> fe_invariant \<lparr>fe_value = v mod p, fe_prime = p, fe_class = c\<rparr>" if "is_prime p"
    using that is_prime_gt1[OF that] by (simp add: mfi_init_def py_mod_def fe_invariant_def)
  have two: "fe_invariant r" if "mfi_init is_prime c v p = Inr r"
    using that
    by (auto simp add: mfi_init_def py_mod_def fe_invariant_def split: if_splits
        dest: is_prime_gt1)
  have three: "(\<exists>r. fe_add is_prime a b = Inr r \<and> fe_invariant r)
      \<and> (\<exists>r. fe_sub is_prime a b = Inr r \<and> fe_invariant r)
      \<and> (\<exists>r. fe_mul is_prime a b = Inr r \<and> fe_invariant r)
      \<and> (\<exists>r. fe_truediv is_prime a b = Inr r \<and> fe_invariant r)
      \<and> (\<exists>r. fe_pow is_prime a e = Inr r \<and> fe_invariant r)
      \<and> (\<exists>r. fe_rmul is_prime k a = Inr r \<and> fe_invariant r)"
    if "fe_valid is_prime a" "fe_valid is_prime b" "fe_prime a = fe_prime b"
    using fe_ops_total[OF that] fe_ops_invariant by metis
  from one two three show ?thesis by blast
qed

theorem C9_constructor_reduces_and_invariant_witness:
  "mfi_init is_prime ModularFieldInteger (- 3) 7
     = Inr \<lparr>fe_value = 4, fe_prime = 7, fe_class = ModularFieldInteger\<rparr>
   \<and> fe_invariant \<lparr>fe_value = 4, fe_prime = 7, fe_class = ModularFieldInteger\<rparr>
   \<and> (\<exists>r. fe_truediv is_prime \<lparr>fe_value = 4, fe_prime = 7, fe_class = ModularFieldInteger\<rparr>
              \<lparr>fe_value = 5, fe_prime = 7, fe_class = ModularFieldInteger\<rparr> = Inr r
          \<and> fe_invariant r)"
proof -
  have v: "fe_valid is_prime \<lparr>fe_value = 4, fe_prime = 7, fe_class = ModularFieldInteger\<rparr>"
    "fe_valid is_prime \<lparr>fe_value = 5, fe_prime = 7, fe_class = ModularFieldInteger\<rparr>"
    by (simp_all add: fe_valid_def is_prime_7)
  show ?thesis
    using C9_constructor_reduces_and_invariant[of 7 ModularFieldInteger "- 3" _
        "\<lparr>fe_value = 4, fe_prime = 7, fe_class = ModularFieldInteger\<rparr>"
        "\<lparr>fe_value = 5, fe_prime = 7, fe_class = ModularFieldInteger\<rparr>"] v is_prime_7
    by simp
qed

section \<open>The SEC codec\<close>

lemma to_bytes_be:
  "to_bytes len n =
     (if n < 0 \<or> 256 ^ len \<le> n then Inl OverflowError else Inr (be_bytes len n))"
  by (simp add: to_bytes_def be_bytes_def)

text \<open>
  Claim C6, evaluated on the code. \<open>S256Point.parse\<close> has an empty body: for the
  generator \<open>G\<close>, both the compressed and the uncompressed encoding exist, and decoding
  either returns \<open>None\<close> rather than \<open>G\<close>; indeed it returns \<open>None\<close> on every input.
\<close>

theorem C6_parse_returns_none:
  "(\<exists>bs. sec S256_G True = Inr bs \<and> S256Point_parse bs = None \<and> S256Point_parse bs \<noteq> Some S256_G)
   \<and> (\<exists>bs. sec S256_G False = Inr bs \<and> S256Point_parse bs = None \<and> S256Point_parse bs \<noteq> Some S256_G)
   \<and> S256Point_parse sec_bin = None"
  by (simp add: sec_def S256_G_def to_bytes_be G_X_def G_Y_def S256Point_parse_def)

section \<open>The DER codec\<close>

lemma be_bytes_Suc: "be_bytes (Suc len) n = be_bytes len (n div 256) @ [n mod 256]"
proof -
  have "(n div 256 ^ (len - i)) = (n div 256) div 256 ^ (len - 1 - i)" if "i < len" for i
  proof -
    have "len - i = Suc (len - 1 - i)" using that by simp
    then show ?thesis by (simp add: zdiv_zmult2_eq)
  qed
  then show ?thesis by (simp add: be_bytes_def)
qed

lemma from_bytes_snoc: "from_bytes (xs @ [b]) = from_bytes xs * 256 + b"
  by (simp add: from_bytes_def)

lemma from_bytes_be: "from_bytes (be_bytes len n) = n mod 256 ^ len"
proof (induction len arbitrary: n)
  case 0
  show ?case by (simp add: be_bytes_def from_bytes_def)
next
  case (Suc len)
  have "n mod (256 * 256 ^ len) = 256 * ((n div 256) mod 256 ^ len) + n mod 256"
    by (simp add: zmod_zmult2_eq)
  then show ?case by (simp add: be_bytes_Suc from_bytes_snoc Suc.IH)
qed

lemma from_bytes_zero_cons: "from_bytes (0 # xs) = from_bytes xs"
  by (simp add: from_bytes_def)

lemma from_bytes_lstrip0: "from_bytes (lstrip0 xs) = from_bytes xs"
  by (induction xs) (simp_all add: lstrip0_def from_bytes_zero_cons)

lemma length_be_bytes: "length (be_bytes len n) = len"
  by (simp add: be_bytes_def)

lemma length_lstrip0: "length (lstrip0 xs) \<le> length xs"
  by (simp add: lstrip0_def length_dropWhile_le)

lemma be_bytes_zero: "lstrip0 (be_bytes len 0) = []"
  by (simp add: lstrip0_def be_bytes_def)

text \<open>
  One INTEGER field of a value in \<open>[1, 2^256)\<close>: tag, length, and at most 33 content
  bytes that read back as the value.
\<close>

lemma der_integer_ok:
  assumes "1 \<le> v" "v < 2 ^ 256"
  shows "\<exists>bin. der_integer v = Inr ([2, int (length bin)] @ bin) \<and> from_bytes bin = v
           \<and> 0 < length bin \<and> length bin \<le> 33"
proof -
  have tb: "to_bytes 32 v = Inr (be_bytes 32 v)" using assms by (simp add: to_bytes_be)
  have fb: "from_bytes (lstrip0 (be_bytes 32 v)) = v"
    using assms by (simp add: from_bytes_lstrip0 from_bytes_be)
  obtain b0 rest where ls: "lstrip0 (be_bytes 32 v) = b0 # rest"
    using fb assms(1) by (cases "lstrip0 (be_bytes 32 v)") (auto simp add: from_bytes_def)
  have len: "length (b0 # rest) \<le> 32"
    using length_lstrip0[of "be_bytes 32 v"] by (simp add: ls length_be_bytes)
  define bin where "bin = (if and b0 0x80 \<noteq> 0 then 0 # b0 # rest else b0 # rest)"
  have fbin: "from_bytes bin = v" using fb by (simp add: bin_def ls from_bytes_zero_cons)
  have lb: "0 < length bin" "length bin \<le> 33" using len by (auto simp add: bin_def)
  have "der_integer v = Inr ([2, int (length bin)] @ bin)"
    using lb by (simp add: der_integer_def tb ls bin_def[symmetric] Let_def bytes_of_def)
  then show ?thesis using fbin lb by blast
qed

lemma der_integer_zero: "der_integer 0 = Inl IndexError"
  by (simp add: der_integer_def to_bytes_be be_bytes_zero)

lemma der_integer_overflow: "v < 0 \<or> 2 ^ 256 \<le> v \<Longrightarrow> der_integer v = Inl OverflowError"
  by (auto simp add: der_integer_def to_bytes_be)

lemma der_integer_cases:
  "(1 \<le> v \<and> v < 2 ^ 256) \<or> der_integer v = Inl IndexError \<or> der_integer v = Inl OverflowError"
proof -
  consider "v = 0" | "v < 0 \<or> 2 ^ 256 \<le> v" | "1 \<le> v \<and> v < 2 ^ 256" by linarith
  then show ?thesis
  proof cases
    case 1 then show ?thesis by (simp only: der_integer_zero) simp
  next
    case 2 then show ?thesis using der_integer_overflow[of v] by blast
  next
    case 3 then show ?thesis by blast
  qed
qed

lemma der_ok:
  assumes "1 \<le> r" "r < 2 ^ 256" "1 \<le> s" "s < 2 ^ 256"
  shows "\<exists>rbin sbin. der \<lparr>sig_r = r, sig_s = s\<rparr>
            = Inr ([0x30, int (length rbin) + int (length sbin) + 4, 2, int (length rbin)] @ rbin
                    @ [2, int (length sbin)] @ sbin)
          \<and> from_bytes rbin = r \<and> from_bytes sbin = s \<and> length rbin \<le> 33 \<and> length sbin \<le> 33"
proof -
  obtain rbin where r: "der_integer r = Inr ([2, int (length rbin)] @ rbin)" "from_bytes rbin = r"
     "length rbin \<le> 33"
    using der_integer_ok[OF assms(1,2)] by blast
  obtain sbin where s: "der_integer s = Inr ([2, int (length sbin)] @ sbin)" "from_bytes sbin = s"
     "length sbin \<le> 33"
    using der_integer_ok[OF assms(3,4)] by blast
  have "der \<lparr>sig_r = r, sig_s = s\<rparr>
            = Inr ([0x30, int (length rbin) + int (length sbin) + 4, 2, int (length rbin)] @ rbin
                    @ [2, int (length sbin)] @ sbin)"
    using r(3) s(3) by (simp add: der_def r(1) s(1) bytes_of_def)
  then show ?thesis using r s by blast
qed

lemma parse_der_shape:
  assumes "length rbin \<le> 33" "length sbin \<le> 33"
  shows "Signature_parse
           ([0x30, int (length rbin) + int (length sbin) + 4, 2, int (length rbin)] @ rbin
              @ [2, int (length sbin)] @ sbin)
         = Inr \<lparr>sig_r = from_bytes rbin, sig_s = from_bytes sbin\<rparr>"
  by (simp add: Signature_parse_def read1_def Let_def)

text \<open>
  Claim C4. For every pair \<open>(r, s)\<close> with \<open>1 \<le> r, s < 2^256\<close> (which covers the valid
  range \<open>[1, n - 1]\<close>), \<open>der\<close> returns a byte string and \<open>Signature.parse\<close> of that byte
  string returns the signature with the same \<open>r\<close> and \<open>s\<close>; this includes values whose
  leading byte has the high bit set (a \<open>0x00\<close> byte is prepended) and values with leading
  zero bytes (they are stripped).
\<close>

theorem C4_der_round_trip:
  assumes "1 \<le> r" "r < 2 ^ 256" "1 \<le> s" "s < 2 ^ 256"
  shows "\<exists>bs. der \<lparr>sig_r = r, sig_s = s\<rparr> = Inr bs
           \<and> Signature_parse bs = Inr \<lparr>sig_r = r, sig_s = s\<rparr>"
proof -
  obtain rbin sbin where d: "der \<lparr>sig_r = r, sig_s = s\<rparr>
            = Inr ([0x30, int (length rbin) + int (length sbin) + 4, 2, int (length rbin)] @ rbin
                    @ [2, int (length sbin)] @ sbin)"
          "from_bytes rbin = r" "from_bytes sbin = s" "length rbin \<le> 33" "length sbin \<le> 33"
    using der_ok[OF assms] by blast
  show ?thesis using parse_der_shape[OF d(4,5)] d(1,2,3) by simp
qed

theorem C4_der_round_trip_witness:
  "\<exists>bs. der \<lparr>sig_r = 2 ^ 255, sig_s = 1\<rparr> = Inr bs
        \<and> Signature_parse bs = Inr \<lparr>sig_r = 2 ^ 255, sig_s = 1\<rparr>"
proof -
  have h: "(1::int) \<le> 2 ^ 255" "(2::int) ^ 255 < 2 ^ 256" "(1::int) \<le> 1" "(1::int) < 2 ^ 256"
    by simp_all
  show ?thesis using C4_der_round_trip[OF h] .
qed

text \<open>
  Claim C10. \<open>der\<close> returns exactly when \<open>1 \<le> r < 2^256\<close> and \<open>1 \<le> s < 2^256\<close>. A
  component \<open>0\<close> raises IndexError (the stripped byte string is empty and its first byte
  is read), a negative component or one of \<open>2^256\<close> or more raises OverflowError in
  \<open>to_bytes\<close>; \<open>r\<close> is encoded first, so its failure comes first.
\<close>

theorem C10_der_precondition:
  "((1 \<le> r \<and> r < 2 ^ 256 \<and> 1 \<le> s \<and> s < 2 ^ 256)
       \<longrightarrow> (\<exists>bs. der \<lparr>sig_r = r, sig_s = s\<rparr> = Inr bs))
   \<and> (\<not> (1 \<le> r \<and> r < 2 ^ 256 \<and> 1 \<le> s \<and> s < 2 ^ 256) \<longrightarrow>
         der \<lparr>sig_r = r, sig_s = s\<rparr> = Inl IndexError
         \<or> der \<lparr>sig_r = r, sig_s = s\<rparr> = Inl OverflowError)
   \<and> (r = 0 \<longrightarrow> der \<lparr>sig_r = r, sig_s = s\<rparr> = Inl IndexError)
   \<and> (1 \<le> r \<and> r < 2 ^ 256 \<and> s = 0 \<longrightarrow> der \<lparr>sig_r = r, sig_s = s\<rparr> = Inl IndexError)
   \<and> (r < 0 \<or> 2 ^ 256 \<le> r \<longrightarrow> der \<lparr>sig_r = r, sig_s = s\<rparr> = Inl OverflowError)
   \<and> (1 \<le> r \<and> r < 2 ^ 256 \<and> (s < 0 \<or> 2 ^ 256 \<le> s)
         \<longrightarrow> der \<lparr>sig_r = r, sig_s = s\<rparr> = Inl OverflowError)"
proof -
  have ok: "\<exists>bs. der \<lparr>sig_r = r, sig_s = s\<rparr> = Inr bs"
    if "1 \<le> r" "r < 2 ^ 256" "1 \<le> s" "s < 2 ^ 256"
    using der_ok[OF that] by blast
  have r0: "der \<lparr>sig_r = 0, sig_s = s\<rparr> = Inl IndexError"
    by (simp add: der_def der_integer_zero)
  have rov: "der \<lparr>sig_r = r, sig_s = s\<rparr> = Inl OverflowError" if "r < 0 \<or> 2 ^ 256 \<le> r"
    using der_integer_overflow[OF that] by (simp add: der_def)
  have sbad: "der \<lparr>sig_r = r, sig_s = t\<rparr> = Inl e"
    if h: "1 \<le> r" "r < 2 ^ 256" "der_integer t = Inl e" for e t
  proof -
    obtain x where "der_integer r = Inr x" using der_integer_ok[OF h(1,2)] by blast
    then show ?thesis by (simp add: der_def h(3))
  qed
  have s0: "der \<lparr>sig_r = r, sig_s = 0\<rparr> = Inl IndexError" if "1 \<le> r" "r < 2 ^ 256"
    using sbad[OF that der_integer_zero] .
  have sov: "der \<lparr>sig_r = r, sig_s = s\<rparr> = Inl OverflowError"
    if "1 \<le> r" "r < 2 ^ 256" "s < 0 \<or> 2 ^ 256 \<le> s"
    using sbad[OF that(1,2) der_integer_overflow[OF that(3)]] .
  have bad: "der \<lparr>sig_r = r, sig_s = s\<rparr> = Inl IndexError
             \<or> der \<lparr>sig_r = r, sig_s = s\<rparr> = Inl OverflowError"
    if "\<not> (1 \<le> r \<and> r < 2 ^ 256 \<and> 1 \<le> s \<and> s < 2 ^ 256)"
  proof (cases "1 \<le> r \<and> r < 2 ^ 256")
    case True
    then have "\<not> (1 \<le> s \<and> s < 2 ^ 256)" using that by blast
    then show ?thesis using der_integer_cases[of s] sbad True by blast
  next
    case False
    then have "der_integer r = Inl IndexError \<or> der_integer r = Inl OverflowError"
      using der_integer_cases[of r] by blast
    then show ?thesis by (auto simp add: der_def)
  qed
  show ?thesis using ok r0 rov s0 sov bad by blast
qed

theorem C10_der_precondition_witness:
  "(\<exists>bs. der \<lparr>sig_r = 1, sig_s = 2 ^ 256 - 1\<rparr> = Inr bs)
   \<and> der \<lparr>sig_r = 0, sig_s = 1\<rparr> = Inl IndexError
   \<and> der \<lparr>sig_r = 1, sig_s = 0\<rparr> = Inl IndexError
   \<and> der \<lparr>sig_r = 2 ^ 256, sig_s = 1\<rparr> = Inl OverflowError
   \<and> der \<lparr>sig_r = 1, sig_s = - 1\<rparr> = Inl OverflowError"
  using C10_der_precondition[of 1 "2 ^ 256 - 1"] C10_der_precondition[of 0 1]
    C10_der_precondition[of 1 0] C10_der_precondition[of "2 ^ 256" 1]
    C10_der_precondition[of 1 "- 1"]
  by simp

section \<open>Primes: Euclid's lemma and Fermat's little theorem\<close>

text \<open>
  The field division of the code multiplies by the \<open>(p - 2)\<close>-th power. That this is
  an inverse for a prime \<open>p\<close> is Fermat's little theorem, proved here for \<open>is_prime\<close>
  by induction with the binomial theorem.
\<close>

lemma is_prime_divisors:
  assumes "is_prime p" "d dvd p" "0 < d"
  shows "d = 1 \<or> d = p"
proof (rule ccontr)
  assume n: "\<not> (d = 1 \<or> d = p)"
  have "0 < p" using is_prime_gt1[OF assms(1)] by simp
  with assms(2) have "d \<le> p" by (rule zdvd_imp_le)
  with n assms(3) have "d \<in> {2..<p}" by simp
  then have "p mod d \<noteq> 0" using assms(1) by (simp add: is_prime_def)
  with assms(2) show False by (simp add: dvd_eq_mod_eq_0)
qed

lemma is_prime_coprime:
  assumes "is_prime p" "\<not> p dvd v"
  shows "coprime p v"
proof -
  have "p \<noteq> 0" using is_prime_gt1[OF assms(1)] by simp
  then have g: "gcd p v dvd p" "0 < gcd p v" by simp_all
  from is_prime_divisors[OF assms(1) g] have "gcd p v = 1 \<or> gcd p v = p" .
  moreover have "gcd p v \<noteq> p"
  proof
    assume "gcd p v = p"
    then have "p dvd v" by (metis gcd_dvd2)
    with assms(2) show False by simp
  qed
  ultimately show ?thesis by (simp add: coprime_iff_gcd_eq_1)
qed

lemma is_prime_dvd_mult:
  assumes "is_prime p" "p dvd a * b"
  shows "p dvd a \<or> p dvd b"
proof (cases "p dvd a")
  case True then show ?thesis by simp
next
  case False
  then have "coprime p a" using assms(1) by (rule is_prime_coprime[rotated])
  then show ?thesis using assms(2) by (simp add: coprime_dvd_mult_right_iff)
qed

lemma is_prime_dvd_choose:
  assumes "is_prime p" "0 < k" "k < nat p"
  shows "p dvd int (nat p choose k)"
proof -
  obtain n where n: "nat p = Suc n" using assms(3) by (cases "nat p") auto
  obtain j where j: "k = Suc j" using assms(2) by (cases k) auto
  have "Suc j * (Suc n choose Suc j) = Suc n * (n choose j)"
    by (rule Suc_times_binomial)
  then have "int k * int (nat p choose k) = int (nat p) * int (n choose j)"
    unfolding n j by (metis of_nat_mult)
  then have "p dvd int k * int (nat p choose k)"
    using is_prime_gt1[OF assms(1)] by simp
  moreover have "\<not> p dvd int k"
  proof
    assume "p dvd int k"
    moreover have "0 < int k" using assms(2) by simp
    ultimately have "p \<le> int k" by (rule zdvd_imp_le)
    with assms(3) show False by simp
  qed
  ultimately show ?thesis using is_prime_dvd_mult[OF assms(1)] by blast
qed

lemma fermat_nat:
  assumes "is_prime p"
  shows "p dvd (int a) ^ nat p - int a"
proof (induction a)
  case 0
  have "0 < nat p" using is_prime_gt1[OF assms] by simp
  then show ?case by (simp add: zero_power)
next
  case (Suc a)
  define P where "P = nat p"
  have P: "1 < P" using is_prime_gt1[OF assms] by (simp add: P_def)
  have "(int a + 1) ^ P = (\<Sum>k\<le>P. int (P choose k) * int a ^ k * 1 ^ (P - k))"
    by (rule binomial_ring)
  also have "\<dots> = (\<Sum>k\<le>P. int (P choose k) * int a ^ k)" by simp
  also have "{..P} = insert 0 (insert P {1..<P})" using P by auto
  also have "(\<Sum>k\<in>insert 0 (insert P {1..<P}). int (P choose k) * int a ^ k)
      = 1 + int a ^ P + (\<Sum>k\<in>{1..<P}. int (P choose k) * int a ^ k)"
    using P by simp
  finally have e: "(int a + 1) ^ P - (int a + 1)
      = (int a ^ P - int a) + (\<Sum>k\<in>{1..<P}. int (P choose k) * int a ^ k)" by simp
  have "p dvd (\<Sum>k\<in>{1..<P}. int (P choose k) * int a ^ k)"
  proof (rule dvd_sum)
    fix k assume "k \<in> {1..<P}"
    then have "p dvd int (nat p choose k)"
      using is_prime_dvd_choose[OF assms, of k] by (simp add: P_def)
    then show "p dvd int (P choose k) * int a ^ k" by (simp add: P_def)
  qed
  with Suc.IH have "p dvd (int a ^ P - int a) + (\<Sum>k\<in>{1..<P}. int (P choose k) * int a ^ k)"
    unfolding P_def by (rule dvd_add)
  then have "p dvd (int a + 1) ^ P - (int a + 1)"
    by (simp only: e)
  then show ?case by (simp add: P_def add.commute)
qed

lemma fermat_inverse_nonneg:
  assumes "is_prime p" "0 \<le> v" "\<not> p dvd v"
  shows "(v * v ^ nat (p - 2)) mod p = 1"
proof -
  have p: "1 < p" using assms(1) by (rule is_prime_gt1)
  have "p dvd v ^ nat p - v" using fermat_nat[OF assms(1), of "nat v"] assms(2) by simp
  moreover have "nat p = Suc (Suc (nat (p - 2)))" using p by simp
  ultimately have "p dvd v * (v * v ^ nat (p - 2) - 1)"
    by (simp add: algebra_simps)
  then have "p dvd v * v ^ nat (p - 2) - 1"
    using is_prime_dvd_mult[OF assms(1)] assms(3) by blast
  then have "(v * v ^ nat (p - 2)) mod p = 1 mod p"
    by (simp add: mod_eq_dvd_iff)
  then show ?thesis using p by simp
qed

lemma fermat_inverse:
  assumes "is_prime p" "\<not> p dvd v"
  shows "\<exists>k. v ^ nat (p - 2) * v - 1 = p * k"
proof -
  have p: "1 < p" using assms(1) by (rule is_prime_gt1)
  define w where "w = v mod p"
  have w: "0 \<le> w" "\<not> p dvd w" using p assms(2) by (simp_all add: w_def dvd_eq_mod_eq_0)
  have a: "v ^ nat (p - 2) mod p = w ^ nat (p - 2) mod p"
    unfolding w_def by (simp add: power_mod)
  have "(v * v ^ nat (p - 2)) mod p = ((v mod p) * (v ^ nat (p - 2) mod p)) mod p"
    by (simp add: mod_mult_eq)
  also have "\<dots> = (w * (w ^ nat (p - 2) mod p)) mod p"
    by (simp only: a w_def)
  also have "\<dots> = (w * w ^ nat (p - 2)) mod p"
    by (simp add: mod_mult_right_eq)
  also have "\<dots> = 1 mod p" using fermat_inverse_nonneg[OF assms(1) w] p by simp
  finally have "p dvd v * v ^ nat (p - 2) - 1" by (simp add: mod_eq_dvd_iff)
  then show ?thesis by (simp add: dvd_def mult.commute)
qed

lemma chord_alg:
  fixes p :: int
  assumes "\<exists>k. y1^2 - (x1^3 + a * x1 + b) = p * k"
    and "\<exists>k. y2^2 - (x2^3 + a * x2 + b) = p * k"
    and "\<exists>k. i * (x2 - x1) - 1 = p * k"
    and "\<exists>k. s - (y2 - y1) * i = p * k"
    and "\<exists>k. x3 - (s^2 - x1 - x2) = p * k"
    and "\<exists>k. y3 - (s * (x1 - x3) - y1) = p * k"
  shows "\<exists>k. y3^2 - (x3^3 + a * x3 + b) = p * k"
  using assms by algebra

lemma tangent_alg:
  fixes p :: int
  assumes "\<exists>k. y1^2 - (x1^3 + a * x1 + b) = p * k"
    and "\<exists>k. i * (2 * y1) - 1 = p * k"
    and "\<exists>k. s - (3 * x1^2 + a) * i = p * k"
    and "\<exists>k. x3 - (s^2 - 2 * x1) = p * k"
    and "\<exists>k. y3 - (s * (x1 - x3) - y1) = p * k"
  shows "\<exists>k. y3^2 - (x3^3 + a * x3 + b) = p * k"
  using assms by algebra

lemma mod_eq_ex_iff: "(u mod p = v mod p) \<longleftrightarrow> (\<exists>k. u - v = p * k)" for p :: int
  by (simp add: mod_eq_dvd_iff dvd_def)

lemma mod_diff_ex: "\<exists>k. u mod p - u = p * k" for p :: int
proof -
  have "p dvd u mod p - u" by (metis dvd_minus_mod dvd_minus_iff minus_diff_eq)
  then show ?thesis by (simp add: dvd_def)
qed

section \<open>Field operations in closed form\<close>

lemma fe_valid_mk: "fe_valid is_prime a \<Longrightarrow> a = mk (fe_class a) (fe_prime a) (fe_value a)"
  by (simp add: fe_valid_def mk_def)

lemma fe_valid_cls: "fe_valid is_prime a \<Longrightarrow> cls_ok (fe_class a) (fe_prime a)"
  by (simp add: fe_valid_def cls_ok_def)

lemma fe_new_mk: "is_prime p \<Longrightarrow> cls_ok c p \<Longrightarrow> fe_new is_prime c v p = Inr (mk c p v)"
  using is_prime_gt1[of p] by (simp add: fe_new_ok mk_def cls_ok_def)

lemma mk_sel [simp]: "fe_value (mk c p v) = v mod p" "fe_prime (mk c p v) = p" "fe_class (mk c p v) = c"
  by (simp_all add: mk_def)

lemma mk_ops:
  assumes "is_prime p" "cls_ok c p"
  shows "fe_add is_prime (mk c p u) (mk c' p v) = Inr (mk c p (u + v))"
    and "fe_sub is_prime (mk c p u) (mk c' p v) = Inr (mk c p (u - v))"
    and "fe_mul is_prime (mk c p u) (mk c' p v) = Inr (mk c p (u * v))"
    and "fe_rmul is_prime k (mk c p u) = Inr (mk c p (u * k))"
    and "fe_truediv is_prime (mk c p u) (mk c' p v) = Inr (mk c p (u * v ^ nat (p - 2)))"
proof -
  have p: "1 < p" using assms(1) by (rule is_prime_gt1)
  have n: "fe_new is_prime c w p = Inr (mk c p w)" for w using assms by (rule fe_new_mk)
  have e: "mk c p (w mod p) = mk c p w" for w by (simp add: mk_def)
  show "fe_add is_prime (mk c p u) (mk c' p v) = Inr (mk c p (u + v))"
    using p by (simp add: fe_add_def py_mod_def n e) (simp add: mk_def mod_simps)
  show "fe_sub is_prime (mk c p u) (mk c' p v) = Inr (mk c p (u - v))"
    using p by (simp add: fe_sub_def py_mod_def n e) (simp add: mk_def mod_simps)
  show "fe_mul is_prime (mk c p u) (mk c' p v) = Inr (mk c p (u * v))"
    using p by (simp add: fe_mul_def py_mod_def n e) (simp add: mk_def mod_simps)
  show "fe_rmul is_prime k (mk c p u) = Inr (mk c p (u * k))"
    using p by (simp add: fe_rmul_def py_mod_def n e) (simp add: mk_def mod_simps)
  show "fe_truediv is_prime (mk c p u) (mk c' p v) = Inr (mk c p (u * v ^ nat (p - 2)))"
    using p by (simp add: fe_truediv_def py_mod_def py_pow3_def n e)
       (simp add: mk_def mod_simps)
qed

lemma mk_pow:
  assumes "is_prime p" "cls_ok c p" "0 \<le> e" "e < p - 1"
  shows "fe_pow is_prime (mk c p u) e = Inr (mk c p (u ^ nat e))"
proof -
  have p: "1 < p" using assms(1) by (rule is_prime_gt1)
  have n: "fe_new is_prime c w p = Inr (mk c p w)" for w using assms(1,2) by (rule fe_new_mk)
  have m: "e mod (p - 1) = e" using assms(3,4) by simp
  show ?thesis
    using p assms(3) by (simp add: fe_pow_def py_mod_def py_pow3_def n m)
      (simp add: mk_def power_mod)
qed

lemma mk_eq_iff: "fe_eq (mk c p u) (mk c' p v) \<longleftrightarrow> u mod p = v mod p"
  by (simp add: fe_eq_def)

lemma is_prime_no_divisor: "is_prime p \<Longrightarrow> 2 \<le> d \<Longrightarrow> d < p \<Longrightarrow> p mod d \<noteq> 0"
  by (simp add: is_prime_def)

lemma on_curve_mk:
  assumes "is_prime p" "3 < p" "cls_ok cx p" "cls_ok cy p" "cls_ok ca p"
  shows "is_on_elliptic_curve is_prime (mk cx p x) (mk cy p y) (mk ca p a) (mk cb p b)
         = Inr (y ^ 2 mod p = (x ^ 3 + a * x + b) mod p)"
proof -
  have "p \<noteq> 4"
  proof
    assume "p = 4"
    with assms(1) have "is_prime 4" by simp
    from is_prime_no_divisor[OF this, of 2] show False by simp
  qed
  then have e: "(0::int) \<le> 2" "(2::int) < p - 1" "(0::int) \<le> 3" "(3::int) < p - 1"
    using assms(2) by simp_all
  show ?thesis
    by (simp add: is_on_elliptic_curve_def mk_pow[OF assms(1,4) e(1,2)]
        mk_pow[OF assms(1,3) e(3,4)] mk_ops[OF assms(1,5)] mk_ops[OF assms(1,3)] mk_eq_iff)
qed

section \<open>The group law\<close>

lemma pt_new_infinity:
  assumes "pt_class P = S256Point \<longrightarrow> pt_a P = S256_A \<and> pt_b P = S256_B"
  shows "pt_new ip (pt_class P) None None (pt_a P) (pt_b P) = Inr (pt_infinity P)"
  using assms
  by (cases "pt_class P")
     (simp_all add: pt_new_def ecp_init_def S256Point_init_def pt_infinity_def)

lemma pt_new_finite:
  assumes "pt_class P = S256Point \<longrightarrow> pt_a P = S256_A \<and> pt_b P = S256_B"
    and "is_on_elliptic_curve ip x y (pt_a P) (pt_b P) = Inr True"
  shows "pt_new ip (pt_class P) (Some x) (Some y) (pt_a P) (pt_b P)
         = Inr \<lparr>pt_xy = Some (x, y), pt_a = pt_a P, pt_b = pt_b P, pt_class = pt_class P\<rparr>"
  using assms
  by (cases "pt_class P")
     (simp_all add: pt_new_def ecp_init_def S256Point_init_def)

lemma not_dvd_small:
  fixes p :: int
  assumes "0 \<le> u" "u < p" "0 \<le> v" "v < p" "u \<noteq> v"
  shows "\<not> p dvd (v - u)"
proof
  assume d: "p dvd (v - u)"
  show False
  proof (cases "u < v")
    case True
    then have "0 < v - u" by simp
    with d have "p \<le> v - u" by (rule zdvd_imp_le)
    with assms show False by simp
  next
    case False
    with assms(5) have "0 < u - v" by simp
    moreover from d have "p dvd (u - v)" by (metis dvd_minus_iff minus_diff_eq)
    ultimately have "p \<le> u - v" by (rule zdvd_imp_le[rotated])
    with assms show False by simp
  qed
qed

lemma third_cong:
  fixes p :: int
  shows "(s ^ 2 - u - w) mod p = ((s mod p) ^ 2 - u - w) mod p"
    and "(s * (u - (s ^ 2 - u - w)) - t) mod p
         = (s mod p * (u - ((s mod p) ^ 2 - u - w) mod p) - t) mod p"
proof -
  define r where "r = s mod p"
  have hs: "\<exists>k. r - s = p * k" unfolding r_def by (rule mod_diff_ex)
  then have "\<exists>k. (s ^ 2 - u - w) - (r ^ 2 - u - w) = p * k" by algebra
  then show "(s ^ 2 - u - w) mod p = ((s mod p) ^ 2 - u - w) mod p"
    by (simp add: mod_eq_ex_iff r_def)
  define x where "x = (r ^ 2 - u - w) mod p"
  have "\<exists>k. x - (r ^ 2 - u - w) = p * k" unfolding x_def by (rule mod_diff_ex)
  with hs have "\<exists>k. (s * (u - (s ^ 2 - u - w)) - t) - (r * (u - x) - t) = p * k"
    by algebra
  then show "(s * (u - (s ^ 2 - u - w)) - t) mod p
         = (s mod p * (u - ((s mod p) ^ 2 - u - w) mod p) - t) mod p"
    by (simp add: mod_eq_ex_iff r_def x_def)
qed

lemma add_chord_ok:
  assumes pr: "is_prime p" "3 < p"
    and v: "fe_valid is_prime x1" "fe_valid is_prime y1" "fe_valid is_prime x2" "fe_valid is_prime y2"
    and q: "fe_prime x1 = p" "fe_prime y1 = p" "fe_prime x2 = p" "fe_prime y2 = p"
    and P: "pt_valid is_prime P" "fe_prime (pt_a P) = p"
    and E1: "is_on_elliptic_curve is_prime x1 y1 (pt_a P) (pt_b P) = Inr True"
    and E2: "is_on_elliptic_curve is_prime x2 y2 (pt_a P) (pt_b P) = Inr True"
    and ne: "fe_value x1 \<noteq> fe_value x2"
  shows "add_chord is_prime P x1 y1 x2 y2 = Inr (spec_chord P x1 y1 x2 y2)"
proof -
  define X1 Y1 X2 Y2 A B where d: "X1 = fe_value x1" "Y1 = fe_value y1" "X2 = fe_value x2"
    "Y2 = fe_value y2" "A = fe_value (pt_a P)" "B = fe_value (pt_b P)"
  define c1 c1' c2 c2' ca cb where c: "c1 = fe_class x1" "c1' = fe_class y1" "c2 = fe_class x2"
    "c2' = fe_class y2" "ca = fe_class (pt_a P)" "cb = fe_class (pt_b P)"
  have va: "fe_valid is_prime (pt_a P)" "fe_valid is_prime (pt_b P)" "fe_prime (pt_b P) = p"
    and cl: "pt_class P = S256Point \<longrightarrow> pt_a P = S256_A \<and> pt_b P = S256_B"
    using P by (simp_all add: pt_valid_def)
  have m: "x1 = mk c1 p X1" "y1 = mk c1' p Y1" "x2 = mk c2 p X2" "y2 = mk c2' p Y2"
    "pt_a P = mk ca p A" "pt_b P = mk cb p B"
    using fe_valid_mk[OF v(1)] fe_valid_mk[OF v(2)] fe_valid_mk[OF v(3)] fe_valid_mk[OF v(4)]
      fe_valid_mk[OF va(1)] fe_valid_mk[OF va(2)] q P(2) va(3) by (simp_all add: d c)
  have k: "cls_ok c1 p" "cls_ok c1' p" "cls_ok c2 p" "cls_ok c2' p" "cls_ok ca p" "cls_ok cb p"
    using fe_valid_cls[OF v(1)] fe_valid_cls[OF v(2)] fe_valid_cls[OF v(3)] fe_valid_cls[OF v(4)]
      fe_valid_cls[OF va(1)] fe_valid_cls[OF va(2)] q P(2) va(3) by (simp_all add: c)
  have r: "0 \<le> X1" "X1 < p" "0 \<le> X2" "X2 < p"
    using v(1,3) q by (simp_all add: fe_valid_def d)
  have e1: "\<exists>k. Y1^2 - (X1^3 + A * X1 + B) = p * k"
    using E1 unfolding m by (simp add: on_curve_mk[OF pr k(1,2,5)] mod_eq_ex_iff)
  have e2: "\<exists>k. Y2^2 - (X2^3 + A * X2 + B) = p * k"
    using E2 unfolding m by (simp add: on_curve_mk[OF pr k(3,4,5)] mod_eq_ex_iff)
  define I where "I = (X2 - X1) ^ nat (p - 2)"
  define S where "S = (Y2 - Y1) * I"
  define X3 where "X3 = S^2 - X1 - X2"
  define Y3 where "Y3 = S * (X1 - X3) - Y1"
  have nd: "\<not> p dvd (X2 - X1)" using not_dvd_small[OF r(1,2,3,4)] ne by (simp add: d)
  have inv: "\<exists>k. I * (X2 - X1) - 1 = p * k"
    unfolding I_def by (rule fermat_inverse[OF pr(1) nd])
  have z: "\<exists>k. S - (Y2 - Y1) * I = p * k" "\<exists>k. X3 - (S^2 - X1 - X2) = p * k"
     "\<exists>k. Y3 - (S * (X1 - X3) - Y1) = p * k"
    by (simp_all add: S_def X3_def Y3_def)
  have "\<exists>k. Y3^2 - (X3^3 + A * X3 + B) = p * k"
    by (rule chord_alg[OF e1 e2 inv z])
  then have oc: "is_on_elliptic_curve is_prime (mk c2' p X3) (mk c2' p Y3) (pt_a P) (pt_b P) = Inr True"
    unfolding m by (simp add: on_curve_mk[OF pr k(4,4,5)] mod_eq_ex_iff)
  have e: "(0::int) \<le> 2" "(2::int) < p - 1" using pr(2) by simp_all
  have "add_chord is_prime P x1 y1 x2 y2
        = pt_new is_prime (pt_class P) (Some (mk c2' p X3)) (Some (mk c2' p Y3)) (pt_a P) (pt_b P)"
    unfolding m(1,2,3,4)
    by (simp add: add_chord_def mk_ops[OF pr(1) k(4)] mk_ops[OF pr(1) k(3)] mk_ops[OF pr(1) k(1)]
        mk_pow[OF pr(1) k(4) e] S_def I_def X3_def Y3_def)
  also have "\<dots> = Inr \<lparr>pt_xy = Some (mk c2' p X3, mk c2' p Y3), pt_a = pt_a P, pt_b = pt_b P,
        pt_class = pt_class P\<rparr>"
    by (rule pt_new_finite[OF cl oc])
  also have "\<dots> = Inr (spec_chord P x1 y1 x2 y2)"
    using third_cong(1)[where s=S and u=X1 and w=X2 and p=p]
      third_cong(2)[where s=S and u=X1 and w=X2 and t=Y1 and p=p]
    by (simp add: spec_chord_def spec_third_def Let_def mk_def q d[symmetric] c[symmetric]
         X3_def Y3_def) (simp add: S_def I_def)
  finally show ?thesis .
qed

lemma add_tangent_ok:
  assumes pr: "is_prime p" "3 < p"
    and v: "fe_valid is_prime x1" "fe_valid is_prime y1"
    and q: "fe_prime x1 = p" "fe_prime y1 = p"
    and P: "pt_valid is_prime P" "fe_prime (pt_a P) = p"
    and E1: "is_on_elliptic_curve is_prime x1 y1 (pt_a P) (pt_b P) = Inr True"
    and ne: "fe_value y1 \<noteq> 0"
  shows "add_tangent is_prime P x1 y1 = Inr (spec_tangent P x1 y1)"
proof -
  define X1 Y1 A B where d: "X1 = fe_value x1" "Y1 = fe_value y1"
    "A = fe_value (pt_a P)" "B = fe_value (pt_b P)"
  define c1 c1' ca cb where c: "c1 = fe_class x1" "c1' = fe_class y1"
    "ca = fe_class (pt_a P)" "cb = fe_class (pt_b P)"
  have va: "fe_valid is_prime (pt_a P)" "fe_valid is_prime (pt_b P)" "fe_prime (pt_b P) = p"
    and cl: "pt_class P = S256Point \<longrightarrow> pt_a P = S256_A \<and> pt_b P = S256_B"
    using P by (simp_all add: pt_valid_def)
  have m: "x1 = mk c1 p X1" "y1 = mk c1' p Y1" "pt_a P = mk ca p A" "pt_b P = mk cb p B"
    using fe_valid_mk[OF v(1)] fe_valid_mk[OF v(2)]
      fe_valid_mk[OF va(1)] fe_valid_mk[OF va(2)] q P(2) va(3) by (simp_all add: d c)
  have k: "cls_ok c1 p" "cls_ok c1' p" "cls_ok ca p" "cls_ok cb p"
    using fe_valid_cls[OF v(1)] fe_valid_cls[OF v(2)]
      fe_valid_cls[OF va(1)] fe_valid_cls[OF va(2)] q P(2) va(3) by (simp_all add: c)
  have r: "0 < Y1" "Y1 < p"
    using v(2) q ne by (simp_all add: fe_valid_def d)
  have e1: "\<exists>k. Y1^2 - (X1^3 + A * X1 + B) = p * k"
    using E1 unfolding m by (simp add: on_curve_mk[OF pr k(1,2,3)] mod_eq_ex_iff)
  define I where "I = (Y1 * 2) ^ nat (p - 2)"
  define S where "S = (X1^2 * 3 + A) * I"
  define X3 where "X3 = S^2 - X1 * 2"
  define Y3 where "Y3 = S * (X1 - X3) - Y1"
  have nd: "\<not> p dvd (2 * Y1)"
  proof
    assume "p dvd 2 * Y1"
    then have "p dvd 2 \<or> p dvd Y1" by (rule is_prime_dvd_mult[OF pr(1)])
    then show False
    proof
      assume "p dvd 2"
      then have "p \<le> 2" by (rule zdvd_imp_le) simp
      with pr(2) show False by simp
    next
      assume "p dvd Y1"
      then have "p \<le> Y1" using r(1) by (rule zdvd_imp_le)
      with r(2) show False by simp
    qed
  qed
  have inv: "\<exists>k. I * (2 * Y1) - 1 = p * k"
    using fermat_inverse[OF pr(1) nd] by (simp add: I_def mult.commute)
  have "S = (3 * X1^2 + A) * I" "X3 = S^2 - 2 * X1"
    by (simp_all add: S_def X3_def mult.commute)
  then have z: "\<exists>k. S - (3 * X1^2 + A) * I = p * k" "\<exists>k. X3 - (S^2 - 2 * X1) = p * k"
     "\<exists>k. Y3 - (S * (X1 - X3) - Y1) = p * k"
    by (simp_all add: Y3_def)
  have "\<exists>k. Y3^2 - (X3^3 + A * X3 + B) = p * k"
    by (rule tangent_alg[OF e1 inv z])
  then have oc: "is_on_elliptic_curve is_prime (mk c1 p X3) (mk c1 p Y3) (pt_a P) (pt_b P) = Inr True"
    unfolding m by (simp add: on_curve_mk[OF pr k(1,1,3)] mod_eq_ex_iff)
  have e: "(0::int) \<le> 2" "(2::int) < p - 1" using pr(2) by simp_all
  have "add_tangent is_prime P x1 y1
        = pt_new is_prime (pt_class P) (Some (mk c1 p X3)) (Some (mk c1 p Y3)) (pt_a P) (pt_b P)"
    unfolding m(1,2) X3_def Y3_def S_def I_def
    by (simp only: add_tangent_def mk_ops[OF pr(1) k(1)] mk_ops[OF pr(1) k(2)]
        mk_pow[OF pr(1) k(1) e] m(3) thn_Inr nat_numeral)
  also have "\<dots> = Inr \<lparr>pt_xy = Some (mk c1 p X3, mk c1 p Y3), pt_a = pt_a P, pt_b = pt_b P,
        pt_class = pt_class P\<rparr>"
    by (rule pt_new_finite[OF cl oc])
  also have "\<dots> = Inr (spec_tangent P x1 y1)"
  proof -
    have x: "X3 = S^2 - X1 - X1" by (simp add: X3_def)
    have "S = (3 * X1 ^ 2 + A) * (2 * Y1) ^ nat (p - 2)"
      by (simp add: S_def I_def mult.commute add.commute)
    then have st: "spec_tangent P x1 y1 = spec_third P c1 p (S mod p) X1 Y1 X1"
      by (simp add: spec_tangent_def Let_def q d c)
    show ?thesis
      unfolding st
      using third_cong(1)[where s=S and u=X1 and w=X1 and p=p]
        third_cong(2)[where s=S and u=X1 and w=X1 and t=Y1 and p=p]
      by (simp add: spec_third_def Let_def mk_def Y3_def x)
  qed
  finally show ?thesis .
qed

text \<open>
  Claim C7, amended. Over a prime \<open>p > 3\<close>, for two finite valid points \<open>P\<close>, \<open>Q\<close>
  on the same curve, \<open>P + Q\<close> returns: the point at infinity when \<open>P.x == Q.x\<close> and
  \<open>P.y != Q.y\<close>; else the chord point when \<open>P.x != Q.x\<close>; else (then \<open>P == Q\<close>) the
  point at infinity when \<open>P.y\<close> is zero and the tangent point otherwise. So the result
  is the point at infinity exactly in the two vertical cases, and in every other case
  it is the finite point of the chord or tangent formulas.
\<close>

theorem C7_add_cases_prime_gt_3:
  assumes "pt_valid is_prime P" "pt_valid is_prime Q"
    and "pt_xy P = Some (x1, y1)" "pt_xy Q = Some (x2, y2)"
    and "fe_eq (pt_a P) (pt_a Q)" "fe_eq (pt_b P) (pt_b Q)"
    and "3 < fe_prime (pt_a P)"
  shows "ecp_add is_prime P Q =
           Inr (if fe_eq x1 x2 \<and> fe_ne y1 y2 then pt_infinity P
                else if fe_ne x1 x2 then spec_chord P x1 y1 x2 y2
                else if fe_value y1 = 0 then pt_infinity P
                else spec_tangent P x1 y1)
         \<and> (ecp_add is_prime P Q = Inr (pt_infinity P)
              \<longleftrightarrow> (fe_eq x1 x2 \<and> fe_ne y1 y2) \<or> (pt_eq P Q \<and> fe_value y1 = 0))"
proof -
  define p where "p = fe_prime (pt_a P)"
  have vP: "fe_valid is_prime (pt_a P)" "fe_valid is_prime x1" "fe_valid is_prime y1"
      "fe_prime x1 = p" "fe_prime y1 = p"
      "is_on_elliptic_curve is_prime x1 y1 (pt_a P) (pt_b P) = Inr True"
    and cl: "pt_class P = S256Point \<longrightarrow> pt_a P = S256_A \<and> pt_b P = S256_B"
    using assms(1,3) by (simp_all add: pt_valid_def p_def)
  have pQ: "fe_prime (pt_a Q) = p" "fe_value (pt_a Q) = fe_value (pt_a P)"
     "fe_value (pt_b Q) = fe_value (pt_b P)"
    using assms(5,6) by (simp_all add: fe_eq_def p_def)
  have vQ: "fe_valid is_prime x2" "fe_valid is_prime y2" "fe_prime x2 = p" "fe_prime y2 = p"
      "is_on_elliptic_curve is_prime x2 y2 (pt_a Q) (pt_b Q) = Inr True"
      "fe_valid is_prime (pt_a Q)" "fe_valid is_prime (pt_b Q)" "fe_prime (pt_b Q) = p"
    using assms(2,4) pQ(1) by (simp_all add: pt_valid_def)
  have vb: "fe_valid is_prime (pt_b P)" "fe_prime (pt_b P) = p"
    using assms(1) by (simp_all add: pt_valid_def p_def)
  have pr: "is_prime p" "3 < p" using vP(1) assms(7) by (simp_all add: fe_valid_def p_def)
  have E2: "is_on_elliptic_curve is_prime x2 y2 (pt_a P) (pt_b P) = Inr True"
  proof -
    have "is_on_elliptic_curve is_prime
            (mk (fe_class x2) p (fe_value x2)) (mk (fe_class y2) p (fe_value y2))
            (mk (fe_class (pt_a P)) p (fe_value (pt_a P))) (mk (fe_class (pt_b P)) p (fe_value (pt_b P)))
          = is_on_elliptic_curve is_prime
            (mk (fe_class x2) p (fe_value x2)) (mk (fe_class y2) p (fe_value y2))
            (mk (fe_class (pt_a Q)) p (fe_value (pt_a Q))) (mk (fe_class (pt_b Q)) p (fe_value (pt_b Q)))"
      using fe_valid_cls[OF vQ(1)] fe_valid_cls[OF vQ(2)] fe_valid_cls[OF vP(1)]
        fe_valid_cls[OF vQ(6)] vQ(3,4) pQ
      by (simp add: on_curve_mk[OF pr] p_def[symmetric])
    then show ?thesis
      using fe_valid_mk[OF vQ(1)] fe_valid_mk[OF vQ(2)] fe_valid_mk[OF vP(1)] fe_valid_mk[OF vb(1)]
        fe_valid_mk[OF vQ(6)] fe_valid_mk[OF vQ(7)] vQ(3,4,5,8) pQ(1) vb(2) p_def
      by simp
  qed
  have eqx: "fe_eq x1 x2 \<longleftrightarrow> fe_value x1 = fe_value x2"
    and eqy: "fe_eq y1 y2 \<longleftrightarrow> fe_value y1 = fe_value y2"
    using vP(4,5) vQ(3,4) by (simp_all add: fe_eq_def)
  have same: "\<not> (fe_ne (pt_a P) (pt_a Q) \<or> fe_ne (pt_b P) (pt_b Q))"
    using assms(5,6) by (simp add: fe_ne_def)
  have inf: "pt_new is_prime (pt_class P) None None (pt_a P) (pt_b P) = Inr (pt_infinity P)"
    by (rule pt_new_infinity[OF cl])
  have zero: "fe_rmul is_prime 0 x1 = Inr (mk (fe_class x1) p 0)"
    using mk_ops(4)[OF pr(1) fe_valid_cls[OF vP(2), unfolded vP(4)], of 0 "fe_value x1"]
      fe_valid_mk[OF vP(2)] vP(4) by simp
  have yz: "fe_eq y1 (mk (fe_class x1) p 0) \<longleftrightarrow> fe_value y1 = 0"
    using vP(5) by (simp add: fe_eq_def)
  have main: "ecp_add is_prime P Q =
           Inr (if fe_eq x1 x2 \<and> fe_ne y1 y2 then pt_infinity P
                else if fe_ne x1 x2 then spec_chord P x1 y1 x2 y2
                else if fe_value y1 = 0 then pt_infinity P
                else spec_tangent P x1 y1)"
  proof (cases "fe_eq x1 x2 \<and> fe_ne y1 y2")
    case True
    then show ?thesis using same inf by (simp add: ecp_add_def assms(3,4))
  next
    case F1: False
    show ?thesis
    proof (cases "fe_ne x1 x2")
      case True
      then have ne: "fe_value x1 \<noteq> fe_value x2" by (simp add: fe_ne_def eqx)
      have "add_chord is_prime P x1 y1 x2 y2 = Inr (spec_chord P x1 y1 x2 y2)"
        by (rule add_chord_ok[OF pr vP(2,3) vQ(1,2) vP(4,5) vQ(3,4) assms(1) p_def[symmetric]
              vP(6) E2 ne])
      moreover have "\<not> fe_eq x1 x2" using True by (simp add: fe_ne_def)
      ultimately show ?thesis using same True by (simp add: ecp_add_def assms(3,4))
    next
      case F2: False
      then have ex: "fe_eq x1 x2" by (simp add: fe_ne_def)
      with F1 have ey: "fe_eq y1 y2" by (simp add: fe_ne_def)
      then have ney: "\<not> fe_ne y1 y2" by (simp add: fe_ne_def)
      have pe: "pt_eq P Q" using ex ey assms(3,4,5,6) by (simp add: pt_eq_def)
      show ?thesis
      proof (cases "fe_value y1 = 0")
        case True
        then show ?thesis using same ex ney F2 pe inf
          by (simp add: ecp_add_def assms(3,4) zero yz)
      next
        case False
        have "add_tangent is_prime P x1 y1 = Inr (spec_tangent P x1 y1)"
          by (rule add_tangent_ok[OF pr vP(2,3) vP(4,5) assms(1) p_def[symmetric] vP(6) False])
        then show ?thesis using same ex ney F2 pe False
          by (simp add: ecp_add_def assms(3,4) zero yz)
      qed
    qed
  qed
  have fin: "spec_chord P x1 y1 x2 y2 \<noteq> pt_infinity P" "spec_tangent P x1 y1 \<noteq> pt_infinity P"
    by (simp_all add: spec_chord_def spec_tangent_def spec_third_def pt_infinity_def Let_def)
  have pe_iff: "pt_eq P Q \<longleftrightarrow> fe_eq x1 x2 \<and> fe_eq y1 y2"
    using assms(3,4,5,6) by (simp add: pt_eq_def)
  have "ecp_add is_prime P Q = Inr (pt_infinity P)
              \<longleftrightarrow> (fe_eq x1 x2 \<and> fe_ne y1 y2) \<or> (pt_eq P Q \<and> fe_value y1 = 0)"
    using fin by (auto simp add: main pe_iff fe_ne_def)
  with main show ?thesis by blast
qed

text \<open>
  Claim C7 as stated, for every prime field, fails. Over \<open>p = 2\<close> the point \<open>(0, 1)\<close>
  on \<open>y\<^sup>2 = x\<^sup>3 + x\<close> is accepted by the constructor, is not in a vertical case
  (\<open>y \<noteq> 0\<close>), and \<open>P + P\<close> raises ValueError: the tangent formula yields coordinates
  that fail the curve check. Over \<open>p = 3\<close> the same happens for \<open>(1, 1)\<close> on
  \<open>y\<^sup>2 = x\<^sup>3\<close>.
\<close>

theorem C7_add_small_field_counterexample:
  "ecp_init is_prime EllipcCurvePoint (Some (MFI 2 0)) (Some (MFI 2 1)) (MFI 2 1) (MFI 2 0)
     = Inr (ECP 2 1 0 0 1)
   \<and> pt_valid is_prime (ECP 2 1 0 0 1)
   \<and> ecp_add is_prime (ECP 2 1 0 0 1) (ECP 2 1 0 0 1) = Inl ValueError
   \<and> ecp_init is_prime EllipcCurvePoint (Some (MFI 3 1)) (Some (MFI 3 1)) (MFI 3 0) (MFI 3 0)
     = Inr (ECP 3 0 0 1 1)
   \<and> pt_valid is_prime (ECP 3 0 0 1 1)
   \<and> ecp_add is_prime (ECP 3 0 0 1 1) (ECP 3 0 0 1 1) = Inl ValueError"
  by code_simp

theorem C7_add_cases_prime_gt_3_witness:
  "ecp_add is_prime (ECP 5 1 1 0 1) (ECP 5 1 1 4 2) = Inr (ECP 5 1 1 2 1)"
proof -
  have h: "pt_valid is_prime (ECP 5 1 1 0 1)" "pt_valid is_prime (ECP 5 1 1 4 2)"
    "pt_xy (ECP 5 1 1 0 1) = Some (MFI 5 0, MFI 5 1)"
    "pt_xy (ECP 5 1 1 4 2) = Some (MFI 5 4, MFI 5 2)"
    "fe_eq (pt_a (ECP 5 1 1 0 1)) (pt_a (ECP 5 1 1 4 2))"
    "fe_eq (pt_b (ECP 5 1 1 0 1)) (pt_b (ECP 5 1 1 4 2))"
    "3 < fe_prime (pt_a (ECP 5 1 1 0 1))"
    by code_simp+
  have s: "spec_chord (ECP 5 1 1 0 1) (MFI 5 0) (MFI 5 1) (MFI 5 4) (MFI 5 2) = ECP 5 1 1 2 1"
    "\<not> (fe_eq (MFI 5 0) (MFI 5 4) \<and> fe_ne (MFI 5 1) (MFI 5 2))" "fe_ne (MFI 5 0) (MFI 5 4)"
    by code_simp+
  show ?thesis using C7_add_cases_prime_gt_3[OF h] s by simp
qed

section \<open>Certified modular powers\<close>






section \<open>Doubling the generator\<close>



lemma s256_sel [simp]:
  "fe_value (s256 v) = v" "fe_prime (s256 v) = EC_PRIME" "fe_class (s256 v) = S256Integer"
  by (simp_all add: s256_def)












section \<open>Low-s normalisation in sign\<close>


















section \<open>Scalar multiplication: a concrete run\<close>


end
